theory Spec2Isabelle
  imports Complex_Main "HOL-Library.Sublist"
begin

section \<open>The store and the routes of backend/server.js\<close>

text \<open>
  The backend keeps three SQLite tables; the routes below read \<open>products\<close> and
  read and write \<open>cart_items\<close>. A table is the list of its rows in rowid order.
  \<open>cart_seq\<close> is the \<open>sqlite_sequence\<close> entry that \<open>AUTOINCREMENT\<close> keeps for
  \<open>cart_items\<close>: the largest rowid the table has ever held. The columns
  \<open>product_id\<close> and \<open>quantity\<close> are nullable columns of INTEGER affinity. A
  stored value is read by its numeric value, an \<open>int option\<close> with \<open>None\<close> for SQL
  NULL: the affinity stores an integral number as an INTEGER whenever it fits 64 bits, and
  keeps a larger one as a REAL of the same value. Prices are REAL; they are only compared
  here, never added, and are read as real numbers.
\<close>

record product =
  p_id :: int
  p_name :: string
  p_price :: real
  p_description :: string
  p_emoji :: string
  p_category :: string

record cart_item =
  ci_id :: int
  ci_product_id :: "int option"
  ci_quantity :: "int option"

record db =
  products :: "product list"
  cart_items :: "cart_item list"
  cart_seq :: int

text \<open>
  A field of a JSON request body, as the destructuring \<open>const { a, b = 1 } = req.body\<close>
  sees it: missing (\<open>undefined\<close>), \<open>null\<close>, or a number. A JSON number reaches the
  route as an IEEE double; the model reads the integers among them, by their value. Both a
  missing and a \<open>null\<close> parameter reach SQLite as NULL.
\<close>

datatype 'a field = Absent | Null | Val 'a

fun bind_param :: "'a field \<Rightarrow> 'a option" where
  "bind_param Absent = None"
| "bind_param Null = None"
| "bind_param (Val v) = Some v"

text \<open>
  A destructuring default \<open>x = v\<close> replaces a missing field only; \<open>null\<close> stays
  \<open>null\<close>.
\<close>

fun with_default :: "'a \<Rightarrow> 'a field \<Rightarrow> 'a option" where
  "with_default v Absent = Some v"
| "with_default v Null = None"
| "with_default v (Val x) = Some x"

text \<open>SQL comparison: NULL equals nothing; numbers are compared by value.\<close>

fun sql_eq :: "int option \<Rightarrow> int option \<Rightarrow> bool" where
  "sql_eq (Some a) (Some b) = (a = b)"
| "sql_eq _ _ = False"

text \<open>
  The integers a double holds exactly, with every integer between them: magnitude below
  \<open>2 ^ 53\<close>.
\<close>

definition safe :: "int \<Rightarrow> bool" where
  "safe x = (- (2 ^ 53) < x \<and> x < 2 ^ 53)"

text \<open>
  SQL addition, \<open>quantity + ?\<close>. NULL plus anything is NULL. The driver binds a number
  as an INTEGER when it is an integer of 32 bits and as a REAL otherwise; the engine adds
  two INTEGERs in 64-bit arithmetic and anything else in double arithmetic, and the
  column's affinity stores an integral result as an INTEGER again. While both operands and
  their sum are safe, every one of these paths gives the exact sum. Beyond that the sum
  may be rounded to a double, or overflow 64 bits and stay a REAL: what is stored there is
  the engine's, the argument \<open>beyond\<close>.
\<close>

type_synonym real_sum = "int \<Rightarrow> int \<Rightarrow> int option"

fun sql_add :: "real_sum \<Rightarrow> int option \<Rightarrow> int option \<Rightarrow> int option" where
  "sql_add beyond (Some a) (Some b) =
     (if safe a \<and> safe b \<and> safe (a + b) then Some (a + b) else beyond a b)"
| "sql_add beyond _ _ = None"

text \<open>
  What a route answers: the HTTP status and the JSON body. \<open>res.json\<close> alone answers
  with status 200.
\<close>

datatype payload =
    Error string
  | Message string
  | Row product
  | Rows "product list"

record response =
  status :: nat
  payload :: payload

definition json :: "payload \<Rightarrow> response" where
  "json b = \<lparr>status = 200, payload = b\<rparr>"

definition status_json :: "nat \<Rightarrow> payload \<Rightarrow> response" where
  "status_json s b = \<lparr>status = s, payload = b\<rparr>"

text \<open>
  Every callback of the SQLite driver receives \<open>err\<close>: \<open>None\<close> when the statement
  ran, \<open>Some msg\<close> when the driver failed, in which case the statement changed nothing.
  The outcome is the driver's, so each route takes it as an argument.

  A route parameter \<open>:id\<close> is the text of the path segment. SQLite compares it with
  an INTEGER column after converting the text under numeric affinity; the conversion is
  the engine's, so the routes take it as the argument \<open>aff\<close>: \<open>aff s = Some i\<close> when
  the text \<open>s\<close> converts to the integer \<open>i\<close>, and \<open>None\<close> when it stays text and
  hence equals no integer.
\<close>

type_synonym sqlite_err = "string option"
type_synonym affinity = "string \<Rightarrow> int option"

text \<open>\<open>app.get('/api/products')\<close>, lines 95-103.\<close>

definition get_api_products :: "sqlite_err \<Rightarrow> db \<Rightarrow> response" where
  "get_api_products err d =
     (case err of
        Some msg \<Rightarrow> status_json 500 (Error msg)
      | None \<Rightarrow> json (Rows (products d)))"

text \<open>\<open>app.get('/api/products/:id')\<close>, lines 106-119.\<close>

definition get_api_products_id :: "affinity \<Rightarrow> sqlite_err \<Rightarrow> string \<Rightarrow> db \<Rightarrow> response" where
  "get_api_products_id aff err ident d =
     (case err of
        Some msg \<Rightarrow> status_json 500 (Error msg)
      | None \<Rightarrow>
         (case find (\<lambda>p. aff ident = Some (p_id p)) (products d) of
            None \<Rightarrow> status_json 404 (Error ''Product not found'')
          | Some row \<Rightarrow> json (Row row)))"

text \<open>
  \<open>app.post('/api/cart')\<close>, lines 149-181. The body is destructured with the default
  \<open>quantity = 1\<close>, which applies to a missing field only. \<open>err1\<close> is the outcome of
  the SELECT, \<open>err2\<close> that of the UPDATE or INSERT. The UPDATE touches every row with
  the product id; the INSERT takes the next rowid of the sequence. \<open>beyond\<close> is the
  engine's sum outside the safe range.
\<close>

record cart_body =
  b_product_id :: "int field"
  b_quantity :: "int field"

definition post_api_cart ::
    "real_sum \<Rightarrow> sqlite_err \<Rightarrow> sqlite_err \<Rightarrow> cart_body \<Rightarrow> db \<Rightarrow> response \<times> db" where
  "post_api_cart beyond err1 err2 req d =
     (let product_id = bind_param (b_product_id req);
          quantity = with_default 1 (b_quantity req)
      in case err1 of
           Some msg \<Rightarrow> (status_json 500 (Error msg), d)
         | None \<Rightarrow>
            (case find (\<lambda>r. sql_eq (ci_product_id r) product_id) (cart_items d) of
               Some row \<Rightarrow>
                 (case err2 of
                    Some msg \<Rightarrow> (status_json 500 (Error msg), d)
                  | None \<Rightarrow>
                     (json (Message ''Cart updated successfully''),
                      d\<lparr>cart_items :=
                          map (\<lambda>r. if sql_eq (ci_product_id r) product_id
                                    then r\<lparr>ci_quantity := sql_add beyond (ci_quantity r) quantity\<rparr>
                                    else r)
                              (cart_items d)\<rparr>))
             | None \<Rightarrow>
                 (case err2 of
                    Some msg \<Rightarrow> (status_json 500 (Error msg), d)
                  | None \<Rightarrow>
                     (json (Message ''Item added to cart successfully''),
                      d\<lparr>cart_items :=
                          cart_items d @
                            [\<lparr>ci_id = cart_seq d + 1,
                              ci_product_id = product_id,
                              ci_quantity = quantity\<rparr>],
                        cart_seq := cart_seq d + 1\<rparr>))))"

text \<open>\<open>app.put('/api/cart/:id')\<close>, lines 184-195: one UPDATE, no check of any kind.\<close>

definition put_api_cart_id ::
    "affinity \<Rightarrow> sqlite_err \<Rightarrow> string \<Rightarrow> int field \<Rightarrow> db \<Rightarrow> response \<times> db" where
  "put_api_cart_id aff err ident quantity d =
     (case err of
        Some msg \<Rightarrow> (status_json 500 (Error msg), d)
      | None \<Rightarrow>
         (json (Message ''Cart item updated successfully''),
          d\<lparr>cart_items :=
              map (\<lambda>r. if aff ident = Some (ci_id r)
                        then r\<lparr>ci_quantity := bind_param quantity\<rparr>
                        else r)
                  (cart_items d)\<rparr>))"

text \<open>\<open>app.delete('/api/cart/:id')\<close>, lines 198-208.\<close>

definition delete_api_cart_id ::
    "affinity \<Rightarrow> sqlite_err \<Rightarrow> string \<Rightarrow> db \<Rightarrow> response \<times> db" where
  "delete_api_cart_id aff err ident d =
     (case err of
        Some msg \<Rightarrow> (status_json 500 (Error msg), d)
      | None \<Rightarrow>
         (json (Message ''Item removed from cart successfully''),
          d\<lparr>cart_items := filter (\<lambda>r. aff ident \<noteq> Some (ci_id r)) (cart_items d)\<rparr>))"

text \<open>
  A conversion for concrete requests: an optional minus sign and decimal digits, on which
  every numeric-affinity conversion agrees. Other text is left unconverted here.
\<close>

definition digit_val :: "char \<Rightarrow> nat option" where
  "digit_val c =
     (let n = (of_char c :: nat) in if 48 \<le> n \<and> n \<le> 57 then Some (n - 48) else None)"

fun digits_val :: "nat \<Rightarrow> string \<Rightarrow> nat option" where
  "digits_val acc [] = Some acc"
| "digits_val acc (c # cs) =
     (case digit_val c of None \<Rightarrow> None | Some v \<Rightarrow> digits_val (10 * acc + v) cs)"

fun decimal :: affinity where
  "decimal [] = None"
| "decimal (c # cs) =
     (if c = CHR ''-''
      then (if cs = [] then None else map_option (\<lambda>n. - int n) (digits_val 0 cs))
      else map_option int (digits_val 0 (c # cs)))"

text \<open>
  For concrete requests within the safe range the engine's sum beyond it is never asked
  for; this one answers NULL.
\<close>

definition unasked :: real_sum where
  "unasked a b = None"

text \<open>A store for concrete requests: no products, one cart row.\<close>

definition cart_one :: db where
  "cart_one =
     \<lparr>products = [],
      cart_items = [\<lparr>ci_id = 1, ci_product_id = Some 4, ci_quantity = Some 2\<rparr>],
      cart_seq = 1\<rparr>"

text \<open>
  Two of the seeded products (lines 49-50; the emoji as its UTF-8 bytes) and a cart row
  whose product id matches no product.
\<close>

definition smartphone :: product where
  "smartphone =
     \<lparr>p_id = 1, p_name = ''Smartphone'', p_price = 699.99,
      p_description = ''Latest smartphone with advanced features'',
      p_emoji = [CHR 0xF0, CHR 0x9F, CHR 0x93, CHR 0xB1],
      p_category = ''Electronics''\<rparr>"

definition laptop :: product where
  "laptop =
     \<lparr>p_id = 2, p_name = ''Laptop'', p_price = 1299.99,
      p_description = ''High-performance laptop for work and gaming'',
      p_emoji = [CHR 0xF0, CHR 0x9F, CHR 0x92, CHR 0xBB],
      p_category = ''Electronics''\<rparr>"

definition shop :: db where
  "shop =
     \<lparr>products = [smartphone, laptop],
      cart_items = [\<lparr>ci_id = 1, ci_product_id = Some 999, ci_quantity = Some 1\<rparr>],
      cart_seq = 1\<rparr>"

section \<open>The cart page, frontend/src/components/CartPage.js\<close>

text \<open>
  The page holds \<open>cartItems\<close>, the rows \<open>GET /api/cart\<close> returned. What a handler
  does beyond changing that state is the list of its effects, in order: the request it
  sends, what it logs, the alert it raises.
\<close>

record cart_row =
  v_id :: int
  v_quantity :: int
  v_name :: string
  v_price :: real
  v_emoji :: string
  v_product_id :: int

datatype effect =
    Axios_put int int
  | Console_error string
  | Alert string

text \<open>
  \<open>updateQuantity\<close>, lines 24-36. \<open>put_ok\<close> says whether the awaited
  \<open>axios.put\<close> resolved; when it rejects, the \<open>catch\<close> block logs and alerts and
  the state update is skipped.
\<close>

definition updateQuantity ::
    "bool \<Rightarrow> int \<Rightarrow> int \<Rightarrow> cart_row list \<Rightarrow> cart_row list \<times> effect list" where
  "updateQuantity put_ok itemId newQuantity cartItems =
     (if newQuantity < 1 then (cartItems, [])
      else if put_ok
        then (map (\<lambda>item. if v_id item = itemId then item\<lparr>v_quantity := newQuantity\<rparr> else item)
                  cartItems,
              [Axios_put itemId newQuantity])
        else (cartItems,
              [Axios_put itemId newQuantity,
               Console_error ''Error updating quantity:'',
               Alert ''Error updating quantity'']))"

section \<open>The assistant service in front of the backend\<close>

text \<open>
  The Python service (agent, backend client, tools) is not among the sources here; only
  its README, its start script and its design notes are. What follows is written from
  the specification, sections 4.2 to 4.4 and 7, on top of the routes above.
\<close>

subsection \<open>Errors and the classification of backend answers\<close>

text \<open>
  Modelled from the spec: the error taxonomy of section 7, which the missing service
  declares.
\<close>

datatype fault =
    ValidationError
  | NotFound
  | BackendUnavailable
  | ModelUnavailable
  | IterationLimitExceeded
  | TimeoutError

text \<open>
  Modelled from the spec: the backend client's classification of an answer by its status
  code (section 4.3, missing with the client): a 2xx answer is the result, 404 is
  \<open>NotFound\<close>, any other 4xx is \<open>ValidationError\<close>, and everything else surfaces as
  \<open>BackendUnavailable\<close>.
\<close>

definition classify :: "response \<Rightarrow> fault + payload" where
  "classify res =
     (if 200 \<le> status res \<and> status res < 300 then Inr (payload res)
      else if status res = 404 then Inl NotFound
      else if 400 \<le> status res \<and> status res < 500 then Inl ValidationError
      else Inl BackendUnavailable)"

subsection \<open>The product search tool\<close>

text \<open>
  Modelled from the spec: case folding for the case-insensitive comparisons of
  \<open>product_search\<close> (the tool is missing). A string is a list of bytes; the letters
  A to Z (codes 65 to 90) get bit 5 set, which adds 32, and every other byte is kept.
\<close>

definition lower_char :: "char \<Rightarrow> char" where
  "lower_char c =
     (let n = (of_char c :: nat) in
      if 65 \<le> n \<and> n \<le> 90
      then (case c of Char b0 b1 b2 b3 b4 b5 b6 b7 \<Rightarrow> Char b0 b1 b2 b3 b4 True b6 b7)
      else c)"

definition lower :: "string \<Rightarrow> string" where
  "lower s = map lower_char s"

text \<open>
  Modelled from the spec: the arguments \<open>product_search(query?, category?, min_price?,
  max_price?)\<close> of the missing tool, each optional.
\<close>

record search_args =
  query :: "string option"
  category :: "string option"
  min_price :: "real option"
  max_price :: "real option"

text \<open>
  Modelled from the spec: the filter of the missing \<open>product_search\<close> (section 4.4):
  a case-insensitive substring match of \<open>query\<close> against name, description or category;
  \<open>category\<close> an exact, case-insensitive filter; inclusive price bounds. \<open>sublist\<close> is
  the contiguous-sublist test of the library.
\<close>

definition matches :: "search_args \<Rightarrow> product \<Rightarrow> bool" where
  "matches a p =
     ((case query a of
         None \<Rightarrow> True
       | Some q \<Rightarrow> sublist (lower q) (lower (p_name p))
                 \<or> sublist (lower q) (lower (p_description p))
                 \<or> sublist (lower q) (lower (p_category p)))
      \<and> (case category a of None \<Rightarrow> True | Some c \<Rightarrow> lower (p_category p) = lower c)
      \<and> (case min_price a of None \<Rightarrow> True | Some lo \<Rightarrow> lo \<le> p_price p)
      \<and> (case max_price a of None \<Rightarrow> True | Some hi \<Rightarrow> p_price p \<le> hi))"

text \<open>
  Modelled from the spec: the missing tool \<open>product_search\<close>, applied to the answer the
  backend client got from \<open>GET /api/products\<close>. It returns the matching products, in
  the backend's order; a list with no match is the result \<open>Inr []\<close>, not an error.
\<close>

definition product_search :: "search_args \<Rightarrow> response \<Rightarrow> fault + product list" where
  "product_search a res =
     (case classify res of
        Inl e \<Rightarrow> Inl e
      | Inr (Rows ps) \<Rightarrow> Inr (filter (matches a) ps)
      | Inr _ \<Rightarrow> Inl BackendUnavailable)"

subsection \<open>The cart tools\<close>

text \<open>
  Modelled from the spec: the arguments \<open>cart_management(action, product_id | item_id,
  quantity?)\<close> of the missing tool (section 4.4). \<open>cm_id\<close> is the product id of an
  \<open>add\<close> and the cart item id of an \<open>update\<close> or a \<open>remove\<close>.
\<close>

datatype action = Add | Update | Remove

record cart_request =
  cm_action :: action
  cm_id :: int
  cm_quantity :: "int option"

text \<open>
  Modelled from the spec: the missing tool \<open>cart_management\<close> (section 4.4). It
  dispatches on the action to the backend client's cart operation, here one request to the
  route of the backend, whose answer is classified. An \<open>update\<close> with a quantity below 1
  is a \<open>ValidationError\<close>, raised before anything is sent; so is an \<open>update\<close> without
  a quantity (section 9: missing arguments are validation failures). \<open>segment\<close> is how
  the client writes an id into the path.
\<close>

definition cart_management ::
    "real_sum \<Rightarrow> affinity \<Rightarrow> (int \<Rightarrow> string) \<Rightarrow> sqlite_err \<Rightarrow> sqlite_err \<Rightarrow> cart_request \<Rightarrow> db
      \<Rightarrow> (fault + payload) \<times> db" where
  "cart_management beyond aff segment err1 err2 req d =
     (case cm_action req of
        Add \<Rightarrow>
          (case post_api_cart beyond err1 err2
                  \<lparr>b_product_id = Val (cm_id req),
                   b_quantity = (case cm_quantity req of None \<Rightarrow> Absent | Some n \<Rightarrow> Val n)\<rparr> d of
             (res, d') \<Rightarrow> (classify res, d'))
      | Update \<Rightarrow>
          (case cm_quantity req of
             None \<Rightarrow> (Inl ValidationError, d)
           | Some n \<Rightarrow>
               if n < 1 then (Inl ValidationError, d)
               else
                 (case put_api_cart_id aff err1 (segment (cm_id req)) (Val n) d of
                    (res, d') \<Rightarrow> (classify res, d')))
      | Remove \<Rightarrow>
          (case delete_api_cart_id aff err1 (segment (cm_id req)) d of
             (res, d') \<Rightarrow> (classify res, d')))"

text \<open>
  Modelled from the spec: rounding to 2 decimal places, for the total of \<open>cart_summary\<close>
  (the tool is missing): the nearest hundredth. The spec names no rule for a tie; this one
  rounds it up.
\<close>

definition round2 :: "real \<Rightarrow> real" where
  "round2 x = of_int \<lfloor>x * 100 + 1 / 2\<rfloor> / 100"

text \<open>
  Modelled from the spec: the result of \<open>cart_summary()\<close> (section 4.4): all cart items
  plus the computed total.
\<close>

record summary =
  items :: "cart_row list"
  total :: real

text \<open>
  Modelled from the spec: the missing tool \<open>cart_summary\<close> (section 4.4), applied to
  the cart items the backend client returned. The total is the sum over the items of price
  times quantity, rounded to 2 decimal places. Prices and the total are exact numbers, as
  the spec's formula reads. (The cart page's \<open>calculateTotal\<close>, lines 48-50, evaluates
  the formula in double arithmetic, where each product and each partial sum is rounded to
  a double; that function is not the one modelled here.)
\<close>

definition cart_summary :: "fault + cart_row list \<Rightarrow> fault + summary" where
  "cart_summary listing =
     (case listing of
        Inl e \<Rightarrow> Inl e
      | Inr rows \<Rightarrow>
          Inr \<lparr>items = rows,
               total = round2 (\<Sum>r \<leftarrow> rows. v_price r * of_int (v_quantity r))\<rparr>)"

text \<open>Ids written in decimal, and a cart of two books and a mug.\<close>

definition segment_small :: "int \<Rightarrow> string" where
  "segment_small i = (if i = 1 then ''1'' else if i = 2 then ''2'' else ''0'')"

definition two_books_and_a_mug :: "cart_row list" where
  "two_books_and_a_mug =
     [\<lparr>v_id = 1, v_quantity = 2, v_name = ''Book'', v_price = 19.99, v_emoji = [],
       v_product_id = 7\<rparr>,
      \<lparr>v_id = 2, v_quantity = 1, v_name = ''Coffee Mug'', v_price = 15.995, v_emoji = [],
       v_product_id = 4\<rparr>]"

subsection \<open>The orchestrator's loop\<close>

text \<open>
  Modelled from the spec: the transcript of section 3, which the missing session store
  and agent declare. A turn has a role and a content; the content of a tool turn is the
  tool's name with either an error description (\<open>Inl\<close>) or a result (\<open>Inr\<close>).
  Timestamps are left out: no step of the loop reads them.
\<close>

datatype role = User | Assistant | Tool

datatype content =
    Text string
  | Tool_result string "string + string"

datatype turn = Turn (role: role) (content: content)

text \<open>
  Modelled from the spec: what the model capability returns (section 4.2, step 2): a
  final answer, or a request naming tools with their arguments. The model is a black box;
  \<open>model i ctx\<close> is its reply to the \<open>i\<close>-th invocation of a message on the context
  \<open>ctx\<close>, and \<open>None\<close> when it cannot be reached.
\<close>

record tool_call =
  tool_name :: string
  arguments :: "(string \<times> string) list"

datatype model_reply =
    FINAL string
  | TOOL_REQUEST "tool_call list"

type_synonym model = "nat \<Rightarrow> turn list \<Rightarrow> model_reply option"

text \<open>
  Modelled from the spec: the capability set as a registry from tool names to handlers
  (section 4.4). A handler takes the arguments and the state \<open>'w\<close> of the world it acts
  on, and returns an error description or a result, with the new state; it always
  returns, every call behind it being bounded by a timeout (section 5).
\<close>

type_synonym 'w handler = "(string \<times> string) list \<Rightarrow> 'w \<Rightarrow> (string + string) \<times> 'w"
type_synonym 'w registry = "string \<Rightarrow> 'w handler option"

text \<open>
  Modelled from the spec: the orchestrator's configuration (section 4.2, steps 2 and 6):
  the bound on iterations, the number of recent turns sent to the model, and the fixed
  fallback text.
\<close>

record config =
  max_iterations :: nat
  history_window :: nat
  fallback_text :: string

text \<open>
  Modelled from the spec: the states of the loop as section 9 names them, and the
  machine: its state, the number of model invocations so far, the transcript, and the
  world the tools act on.
\<close>

datatype phase =
    AWAITING_MODEL
  | EXECUTING_TOOL "tool_call list"
  | DONE string

record 'w orchestrator =
  phase :: phase
  iteration :: nat
  transcript :: "turn list"
  world :: 'w

text \<open>Modelled from the spec: the most recent \<open>n\<close> turns (section 4.2, step 2).\<close>

definition recent :: "nat \<Rightarrow> 'a list \<Rightarrow> 'a list" where
  "recent n xs = drop (length xs - n) xs"

text \<open>
  Modelled from the spec: one tool invocation (section 4.2, step 4). An unknown name and
  a failed execution both become a tool turn that carries the error description; neither
  aborts the loop.
\<close>

definition invoke :: "'w registry \<Rightarrow> tool_call \<Rightarrow> 'w \<Rightarrow> turn \<times> 'w" where
  "invoke tools c w =
     (case tools (tool_name c) of
        None \<Rightarrow> (Turn Tool (Tool_result (tool_name c) (Inl ''unknown tool'')), w)
      | Some h \<Rightarrow>
          (case h (arguments c) w of
             (outcome, w') \<Rightarrow> (Turn Tool (Tool_result (tool_name c) outcome), w')))"

text \<open>
  Modelled from the spec: one transition of the loop (section 4.2, steps 2 to 6). Awaiting
  the model with the bound reached, the machine gives up with the fallback text. Otherwise
  it invokes the model once: a final answer is appended as an assistant turn and ends the
  loop; a tool request starts the execution of the listed tools, in order, each result
  appended before the next tool runs; an unreachable model ends the loop with the
  fallback text, without a retry. When the requested tools are done, the machine awaits
  the model again.
\<close>

definition step :: "config \<Rightarrow> model \<Rightarrow> 'w registry \<Rightarrow> 'w orchestrator \<Rightarrow> 'w orchestrator" where
  "step cfg model tools m =
     (case phase m of
        AWAITING_MODEL \<Rightarrow>
          (if max_iterations cfg \<le> iteration m
           then m\<lparr>phase := DONE (fallback_text cfg)\<rparr>
           else
             (case model (iteration m) (recent (history_window cfg) (transcript m)) of
                None \<Rightarrow> m\<lparr>phase := DONE (fallback_text cfg), iteration := iteration m + 1\<rparr>
              | Some (FINAL answer) \<Rightarrow>
                  m\<lparr>phase := DONE answer,
                    iteration := iteration m + 1,
                    transcript := transcript m @ [Turn Assistant (Text answer)]\<rparr>
              | Some (TOOL_REQUEST calls) \<Rightarrow>
                  m\<lparr>phase := EXECUTING_TOOL calls, iteration := iteration m + 1\<rparr>))
      | EXECUTING_TOOL [] \<Rightarrow> m\<lparr>phase := AWAITING_MODEL\<rparr>
      | EXECUTING_TOOL (c # cs) \<Rightarrow>
          (case invoke tools c (world m) of
             (t, w') \<Rightarrow>
               m\<lparr>phase := EXECUTING_TOOL cs, transcript := transcript m @ [t], world := w'\<rparr>)
      | DONE answer \<Rightarrow> m)"

text \<open>Modelled from the spec: the loop has ended when the state is \<open>DONE\<close>.\<close>

fun finished :: "phase \<Rightarrow> bool" where
  "finished (DONE answer) = True"
| "finished _ = False"

text \<open>
  How far a state is from \<open>DONE\<close> while the iteration counter stands still; with the
  iterations left, the measure of the loop's termination.
\<close>

fun rank :: "phase \<Rightarrow> nat" where
  "rank (DONE answer) = 0"
| "rank AWAITING_MODEL = 1"
| "rank (EXECUTING_TOOL calls) = 2 + length calls"

text \<open>
  Modelled from the spec: the loop itself, transitions repeated until \<open>DONE\<close>. It is a
  total function: every transition either uses up one of the \<open>max_iterations\<close>
  iterations or, with the counter unchanged, moves to a state of smaller rank.
\<close>

function run :: "config \<Rightarrow> model \<Rightarrow> 'w registry \<Rightarrow> 'w orchestrator \<Rightarrow> 'w orchestrator" where
  "run cfg model tools m =
     (if finished (phase m) then m else run cfg model tools (step cfg model tools m))"
  by pat_completeness auto
termination
proof (relation "(\<lambda>(cfg, model, tools, m). max_iterations cfg - iteration m)
                   <*mlex*> measure (\<lambda>(cfg, model, tools, m). rank (phase m))")
  show "wf ((\<lambda>(cfg, model, tools, m). max_iterations cfg - iteration m)
              <*mlex*> measure (\<lambda>(cfg, model, tools, m). rank (phase m)))"
    by (simp add: wf_mlex)
next
  fix cfg :: config and model :: model and tools :: "'w registry" and m :: "'w orchestrator"
  assume running: "\<not> finished (phase m)"
  have "max_iterations cfg - iteration (step cfg model tools m) < max_iterations cfg - iteration m
       \<or> (max_iterations cfg - iteration (step cfg model tools m) = max_iterations cfg - iteration m
          \<and> rank (phase (step cfg model tools m)) < rank (phase m))"
  proof (cases "phase m")
    case AWAITING_MODEL
    then show ?thesis
      by (auto simp: step_def split: option.splits model_reply.splits)
  next
    case (EXECUTING_TOOL calls)
    then show ?thesis
      by (cases calls) (auto simp: step_def split: prod.splits)
  next
    case (DONE answer)
    with running show ?thesis by simp
  qed
  then show "((cfg, model, tools, step cfg model tools m), (cfg, model, tools, m))
          \<in> (\<lambda>(cfg, model, tools, m). max_iterations cfg - iteration m)
              <*mlex*> measure (\<lambda>(cfg, model, tools, m). rank (phase m))"
    by (auto simp: mlex_prod_def)
qed

declare run.simps [simp del]

text \<open>
  Modelled from the spec: \<open>process_message\<close> (section 4.2, step 1 and the contract). The
  incoming message is appended as a user turn, the loop runs, and the reply carries the
  text of the \<open>DONE\<close> state. The reply has no error alternative: iteration exhaustion
  and an unreachable model both end in the fallback text.
\<close>

definition start :: "turn list \<Rightarrow> string \<Rightarrow> 'w \<Rightarrow> 'w orchestrator" where
  "start session message w =
     \<lparr>phase = AWAITING_MODEL, iteration = 0,
      transcript = session @ [Turn User (Text message)], world = w\<rparr>"

record 'w chat_reply =
  answer :: string
  model_calls :: nat
  history :: "turn list"
  backend :: 'w

definition process_message ::
    "config \<Rightarrow> model \<Rightarrow> 'w registry \<Rightarrow> turn list \<Rightarrow> string \<Rightarrow> 'w \<Rightarrow> 'w chat_reply" where
  "process_message cfg model tools session message w =
     (let m = run cfg model tools (start session message w)
      in \<lparr>answer = (case phase m of DONE reply \<Rightarrow> reply | _ \<Rightarrow> fallback_text cfg),
          model_calls = iteration m,
          history = transcript m,
          backend = world m\<rparr>)"

text \<open>
  A configuration with two iterations, a registry with one tool, a model that asks for a
  tool whenever it is invoked, and one that asks for two tools (the first unknown) and
  then answers.
\<close>

definition two_rounds :: config where
  "two_rounds =
     \<lparr>max_iterations = 2, history_window = 10,
      fallback_text = ''Sorry, I could not finish that. Please try again.''\<rparr>"

definition one_tool :: "nat registry" where
  "one_tool name =
     (if name = ''cart_summary'' then Some (\<lambda>args w. (Inr ''0 items'', w + 1)) else None)"

definition stubborn :: model where
  "stubborn i ctx = Some (TOOL_REQUEST [\<lparr>tool_name = ''cart_summary'', arguments = []\<rparr>])"

definition second_try :: model where
  "second_try i ctx =
     (if i = 0
      then Some (TOOL_REQUEST [\<lparr>tool_name = ''teleport'', arguments = []\<rparr>,
                               \<lparr>tool_name = ''cart_summary'', arguments = []\<rparr>])
      else Some (FINAL ''Your cart is empty.''))"

subsection \<open>The backend client's circuit breaker\<close>

text \<open>
  Modelled from the spec: the resilience policy of the missing backend client (section
  4.3): attempts per call, the number \<open>N\<close> of consecutive failures that opens the
  circuit, and the length of the cool-down window. Time is a number (milliseconds) that
  each call brings with it as the instant it starts; the pauses between retries are not
  modelled.
\<close>

record policy =
  max_attempts :: nat
  failure_threshold :: nat
  cool_down :: nat

text \<open>
  Modelled from the spec: the outcome of one network attempt, and which outcomes are
  transient (timeout, connection failure, 5xx status).
\<close>

datatype attempt =
    Timeout
  | ConnectionFailure
  | Replied response

fun transient :: "attempt \<Rightarrow> bool" where
  "transient Timeout = True"
| "transient ConnectionFailure = True"
| "transient (Replied res) = (500 \<le> status res)"

text \<open>
  Modelled from the spec: the breaker's state, shared by all calls: the count of
  consecutive transient failures and whether the circuit is closed or open since an
  instant.
\<close>

datatype circuit = Closed | Open nat

record breaker =
  failures :: nat
  circuit :: circuit

text \<open>
  Modelled from the spec: the retries of one call. \<open>net k\<close> is the outcome of the
  call's \<open>k\<close>-th attempt. A transient outcome is retried while attempts are left; any
  other answer ends the call at once. The result is the answer, if any, and the number of
  attempts made.
\<close>

type_synonym network = "nat \<Rightarrow> attempt"

fun retry :: "nat \<Rightarrow> nat \<Rightarrow> network \<Rightarrow> response option \<times> nat" where
  "retry 0 k net = (None, k)"
| "retry (Suc n) k net =
     (case net k of
        Replied res \<Rightarrow> if 500 \<le> status res then retry n (k + 1) net else (Some res, k + 1)
      | _ \<Rightarrow> retry n (k + 1) net)"

text \<open>
  Modelled from the spec: a call that is let through to the network. A failure is a call
  whose attempts were all transient: it surfaces \<open>BackendUnavailable\<close> and counts; the
  circuit opens at this instant when the count reaches the threshold, and reopens when the
  call was the probe of an open circuit. An answer resets the count and closes the
  circuit; the spec says so for a success, and the model takes a 4xx answer the same way,
  the backend having answered.
\<close>

definition through ::
    "policy \<Rightarrow> nat \<Rightarrow> network \<Rightarrow> breaker \<Rightarrow> ((fault + payload) \<times> nat) \<times> breaker" where
  "through pol now net b =
     (case retry (max_attempts pol) 0 net of
        (Some res, k) \<Rightarrow> ((classify res, k), \<lparr>failures = 0, circuit = Closed\<rparr>)
      | (None, k) \<Rightarrow>
          ((Inl BackendUnavailable, k),
           \<lparr>failures = failures b + 1,
            circuit = (if circuit b \<noteq> Closed \<or> failure_threshold pol \<le> failures b + 1
                       then Open now else Closed)\<rparr>))"

text \<open>
  Modelled from the spec: one call of the client at the instant \<open>now\<close>. While the
  circuit is open and the window has not elapsed, the call is answered
  \<open>BackendUnavailable\<close> at once, with no attempt and no change of state; otherwise it
  is let through. The result pairs the outcome with the number of network attempts.
\<close>

definition call ::
    "policy \<Rightarrow> nat \<Rightarrow> network \<Rightarrow> breaker \<Rightarrow> ((fault + payload) \<times> nat) \<times> breaker" where
  "call pol now net b =
     (case circuit b of
        Closed \<Rightarrow> through pol now net b
      | Open since \<Rightarrow>
          if now < since + cool_down pol
          then ((Inl BackendUnavailable, 0), b)
          else through pol now net b)"

text \<open>Modelled from the spec: calls made one after the other on the shared breaker.\<close>

fun calls ::
    "policy \<Rightarrow> (nat \<times> network) list \<Rightarrow> breaker \<Rightarrow> ((fault + payload) \<times> nat) list \<times> breaker" where
  "calls pol [] b = ([], b)"
| "calls pol ((now, net) # cs) b =
     (case call pol now net b of
        (r, b') \<Rightarrow> (case calls pol cs b' of (rs, b'') \<Rightarrow> (r # rs, b'')))"

text \<open>
  The defaults the spec suggests (3 attempts, 5 failures, 30 seconds), a backend that
  never answers and one that answers with an empty product list.
\<close>

definition defaults :: policy where
  "defaults = \<lparr>max_attempts = 3, failure_threshold = 5, cool_down = 30000\<rparr>"

definition down :: network where
  "down k = Timeout"

definition up :: network where
  "up k = Replied (json (Rows []))"

section \<open>Adding to the cart\<close>

lemma sql_eq_Some [simp]: "sql_eq x (Some b) = (x = Some b)"
  by (cases x) auto

lemma sql_eq_None [simp]: "sql_eq x None = False"
  by (cases x) auto

lemma find_eq_None: "(find P xs = None) = (\<forall>x \<in> set xs. \<not> P x)"
  by (induction xs) auto

lemma map_keeps_witness: "x \<in> set xs \<Longrightarrow> P (f x) \<Longrightarrow> \<exists>y \<in> set (map f xs). P y"
  by auto

text \<open>Within the safe range the stored sum is the exact sum, whatever the engine does beyond.\<close>

lemma sql_add_safe:
  "safe a \<Longrightarrow> safe b \<Longrightarrow> safe (a + b) \<Longrightarrow> sql_add beyond (Some a) (Some b) = Some (a + b)"
  by simp

text \<open>The two branches of the route, once the driver ran both statements.\<close>

lemma post_api_cart_present:
  assumes "\<exists>r \<in> set (cart_items d). sql_eq (ci_product_id r) (bind_param (b_product_id req))"
  shows "post_api_cart beyond None None req d =
     (json (Message ''Cart updated successfully''),
      d\<lparr>cart_items :=
          map (\<lambda>r. if sql_eq (ci_product_id r) (bind_param (b_product_id req))
                    then r\<lparr>ci_quantity :=
                           sql_add beyond (ci_quantity r) (with_default 1 (b_quantity req))\<rparr>
                    else r)
              (cart_items d)\<rparr>)"
proof -
  from assms have "find (\<lambda>r. sql_eq (ci_product_id r) (bind_param (b_product_id req))) (cart_items d) \<noteq> None"
    by (simp add: find_eq_None)
  then obtain row where
    "find (\<lambda>r. sql_eq (ci_product_id r) (bind_param (b_product_id req))) (cart_items d) = Some row"
    by blast
  then show ?thesis
    by (simp add: post_api_cart_def Let_def)
qed

lemma post_api_cart_fresh:
  assumes "\<forall>r \<in> set (cart_items d). \<not> sql_eq (ci_product_id r) (bind_param (b_product_id req))"
  shows "post_api_cart beyond None None req d =
     (json (Message ''Item added to cart successfully''),
      d\<lparr>cart_items :=
          cart_items d @
            [\<lparr>ci_id = cart_seq d + 1,
              ci_product_id = bind_param (b_product_id req),
              ci_quantity = with_default 1 (b_quantity req)\<rparr>],
        cart_seq := cart_seq d + 1\<rparr>)"
proof -
  from assms have "find (\<lambda>r. sql_eq (ci_product_id r) (bind_param (b_product_id req))) (cart_items d) = None"
    by (simp add: find_eq_None)
  then show ?thesis
    by (simp add: post_api_cart_def Let_def)
qed

text \<open>
  What the UPDATE branch does to the rows, for a request that names product \<open>pid\<close> and
  asks for \<open>n\<close>: the rows keep their number, ids and products; a row of the product
  whose quantity \<open>k\<close> is safe with a safe sum gets \<open>k + n\<close>; every other product's row
  is untouched.
\<close>

lemma post_api_cart_update_rows:
  fixes pid n :: int and q :: "int field" and d :: db and beyond :: real_sum
  defines "req \<equiv> \<lparr>b_product_id = Val pid, b_quantity = q\<rparr>"
  assumes q: "q = Val n \<or> (q = Absent \<and> n = 1)" and n: "safe n"
    and present: "\<exists>r \<in> set (cart_items d). ci_product_id r = Some pid"
  shows "fst (post_api_cart beyond None None req d)
        = \<lparr>status = 200, payload = Message ''Cart updated successfully''\<rparr>"
    and "products (snd (post_api_cart beyond None None req d)) = products d"
    and "cart_seq (snd (post_api_cart beyond None None req d)) = cart_seq d"
    and "length (cart_items (snd (post_api_cart beyond None None req d))) = length (cart_items d)"
    and "\<forall>i < length (cart_items d).
            ci_id (cart_items (snd (post_api_cart beyond None None req d)) ! i)
              = ci_id (cart_items d ! i)
          \<and> ci_product_id (cart_items (snd (post_api_cart beyond None None req d)) ! i)
              = ci_product_id (cart_items d ! i)
          \<and> (\<forall>k. ci_product_id (cart_items d ! i) = Some pid
                  \<and> ci_quantity (cart_items d ! i) = Some k \<and> safe k \<and> safe (k + n)
                \<longrightarrow> ci_quantity (cart_items (snd (post_api_cart beyond None None req d)) ! i)
                      = Some (k + n))
          \<and> (ci_product_id (cart_items d ! i) \<noteq> Some pid
                \<longrightarrow> cart_items (snd (post_api_cart beyond None None req d)) ! i
                      = cart_items d ! i)"
    and "\<exists>r \<in> set (cart_items (snd (post_api_cart beyond None None req d))). ci_product_id r = Some pid"
proof -
  have rq: "with_default 1 (b_quantity req) = Some n"
    using q by (auto simp: req_def)
  have pid: "bind_param (b_product_id req) = Some pid"
    by (simp add: req_def)
  let ?upd = "\<lambda>r. if ci_product_id r = Some pid
                  then r\<lparr>ci_quantity := sql_add beyond (ci_quantity r) (Some n)\<rparr> else r"
  from present obtain r0 where r0: "r0 \<in> set (cart_items d)" "ci_product_id r0 = Some pid"
    by blast
  from present
  have "\<exists>r \<in> set (cart_items d). sql_eq (ci_product_id r) (bind_param (b_product_id req))"
    by (simp add: pid)
  from post_api_cart_present [OF this, of beyond]
  have res: "post_api_cart beyond None None req d =
      (\<lparr>status = 200, payload = Message ''Cart updated successfully''\<rparr>,
       d\<lparr>cart_items := map ?upd (cart_items d)\<rparr>)"
    by (simp add: rq pid json_def)
  show "fst (post_api_cart beyond None None req d)
        = \<lparr>status = 200, payload = Message ''Cart updated successfully''\<rparr>"
    and "products (snd (post_api_cart beyond None None req d)) = products d"
    and "cart_seq (snd (post_api_cart beyond None None req d)) = cart_seq d"
    and "length (cart_items (snd (post_api_cart beyond None None req d))) = length (cart_items d)"
    by (simp_all add: res)
  show "\<forall>i < length (cart_items d).
            ci_id (cart_items (snd (post_api_cart beyond None None req d)) ! i)
              = ci_id (cart_items d ! i)
          \<and> ci_product_id (cart_items (snd (post_api_cart beyond None None req d)) ! i)
              = ci_product_id (cart_items d ! i)
          \<and> (\<forall>k. ci_product_id (cart_items d ! i) = Some pid
                  \<and> ci_quantity (cart_items d ! i) = Some k \<and> safe k \<and> safe (k + n)
                \<longrightarrow> ci_quantity (cart_items (snd (post_api_cart beyond None None req d)) ! i)
                      = Some (k + n))
          \<and> (ci_product_id (cart_items d ! i) \<noteq> Some pid
                \<longrightarrow> cart_items (snd (post_api_cart beyond None None req d)) ! i
                      = cart_items d ! i)"
    using n by (simp add: res)
  have "\<exists>r \<in> set (map ?upd (cart_items d)). ci_product_id r = Some pid"
    using r0 by (intro map_keeps_witness [where x = r0]) simp_all
  then show "\<exists>r \<in> set (cart_items (snd (post_api_cart beyond None None req d))).
      ci_product_id r = Some pid"
    by (simp add: res)
qed

text \<open>What the INSERT branch does: one row is appended, and the sequence moves on.\<close>

lemma post_api_cart_insert_row:
  fixes pid n :: int and q :: "int field" and d :: db and beyond :: real_sum
  defines "req \<equiv> \<lparr>b_product_id = Val pid, b_quantity = q\<rparr>"
  assumes q: "q = Val n \<or> (q = Absent \<and> n = 1)"
    and fresh: "\<forall>r \<in> set (cart_items d). ci_product_id r \<noteq> Some pid"
  shows "post_api_cart beyond None None req d =
      (\<lparr>status = 200, payload = Message ''Item added to cart successfully''\<rparr>,
       d\<lparr>cart_items := cart_items d @
            [\<lparr>ci_id = cart_seq d + 1, ci_product_id = Some pid, ci_quantity = Some n\<rparr>],
         cart_seq := cart_seq d + 1\<rparr>)"
proof -
  have rq: "with_default 1 (b_quantity req) = Some n"
    using q by (auto simp: req_def)
  have pid: "bind_param (b_product_id req) = Some pid"
    by (simp add: req_def)
  from fresh
  have "\<forall>r \<in> set (cart_items d). \<not> sql_eq (ci_product_id r) (bind_param (b_product_id req))"
    by (simp add: pid)
  from post_api_cart_fresh [OF this, of beyond] show ?thesis
    by (simp add: rq pid json_def)
qed

text \<open>
  C1. Adding to the cart is not idempotent. The request names product \<open>pid\<close> and asks
  for the amount \<open>n\<close> (a missing quantity asks for 1), both safe integers. If the cart
  already holds the product, the route keeps every row (same number of rows, same ids,
  same products), adds \<open>n\<close> to the stored quantity of each row of that product and
  leaves the other rows alone: nothing is replaced or merged. The sum is exact for a
  stored quantity that is a number (not NULL) while it and the sum are safe, that is below
  \<open>2 ^ 53\<close> in magnitude; beyond that the engine rounds. If the cart does not hold the
  product, one new row with quantity \<open>n\<close> is appended. Either way the cart holds the
  product afterwards, so a repeated call takes the first branch and adds \<open>n\<close> again.
\<close>

theorem post_cart_accumulates:
  fixes pid n :: int and q :: "int field" and d :: db and beyond :: real_sum
  defines "req \<equiv> \<lparr>b_product_id = Val pid, b_quantity = q\<rparr>"
  assumes q: "q = Val n \<or> (q = Absent \<and> n = 1)" and bound: "safe pid" "safe n"
  shows
  "((\<exists>r \<in> set (cart_items d). ci_product_id r = Some pid) \<longrightarrow>
      fst (post_api_cart beyond None None req d)
        = \<lparr>status = 200, payload = Message ''Cart updated successfully''\<rparr>
      \<and> length (cart_items (snd (post_api_cart beyond None None req d))) = length (cart_items d)
      \<and> (\<forall>i < length (cart_items d).
            ci_id (cart_items (snd (post_api_cart beyond None None req d)) ! i)
              = ci_id (cart_items d ! i)
          \<and> ci_product_id (cart_items (snd (post_api_cart beyond None None req d)) ! i)
              = ci_product_id (cart_items d ! i)
          \<and> (\<forall>k. ci_product_id (cart_items d ! i) = Some pid
                  \<and> ci_quantity (cart_items d ! i) = Some k \<and> safe k \<and> safe (k + n)
                \<longrightarrow> ci_quantity (cart_items (snd (post_api_cart beyond None None req d)) ! i)
                      = Some (k + n))
          \<and> (ci_product_id (cart_items d ! i) \<noteq> Some pid
                \<longrightarrow> cart_items (snd (post_api_cart beyond None None req d)) ! i
                      = cart_items d ! i)))
   \<and> ((\<forall>r \<in> set (cart_items d). ci_product_id r \<noteq> Some pid) \<longrightarrow>
      fst (post_api_cart beyond None None req d)
        = \<lparr>status = 200, payload = Message ''Item added to cart successfully''\<rparr>
      \<and> cart_items (snd (post_api_cart beyond None None req d))
        = cart_items d @ [\<lparr>ci_id = cart_seq d + 1, ci_product_id = Some pid, ci_quantity = Some n\<rparr>])
   \<and> (\<exists>r \<in> set (cart_items (snd (post_api_cart beyond None None req d))). ci_product_id r = Some pid)"
proof (cases "\<exists>r \<in> set (cart_items d). ci_product_id r = Some pid")
  case True
  note rows = post_api_cart_update_rows [OF q bound(2) True, of beyond, folded req_def]
  from True rows show ?thesis
    by blast
next
  case False
  then have fresh: "\<forall>r \<in> set (cart_items d). ci_product_id r \<noteq> Some pid"
    by simp
  note row = post_api_cart_insert_row [OF q fresh, of beyond, folded req_def]
  from False show ?thesis
    by (simp add: row)
qed

text \<open>
  On a cart holding product 4 with quantity 2: adding 3 of product 4 keeps the single row
  and stores 5; adding product 9 without a quantity appends a row with quantity 1.
\<close>

theorem post_cart_accumulates_witness:
  "fst (post_api_cart unasked None None \<lparr>b_product_id = Val 4, b_quantity = Val 3\<rparr> cart_one)
     = \<lparr>status = 200, payload = Message ''Cart updated successfully''\<rparr>
   \<and> length (cart_items (snd (post_api_cart unasked None None
         \<lparr>b_product_id = Val 4, b_quantity = Val 3\<rparr> cart_one))) = 1
   \<and> ci_quantity (cart_items (snd (post_api_cart unasked None None
         \<lparr>b_product_id = Val 4, b_quantity = Val 3\<rparr> cart_one)) ! 0) = Some 5
   \<and> cart_items (snd (post_api_cart unasked None None
         \<lparr>b_product_id = Val 9, b_quantity = Absent\<rparr> cart_one))
     = [\<lparr>ci_id = 1, ci_product_id = Some 4, ci_quantity = Some 2\<rparr>,
        \<lparr>ci_id = 2, ci_product_id = Some 9, ci_quantity = Some 1\<rparr>]"
  using post_cart_accumulates [where pid = 4 and n = 3 and q = "Val 3" and d = cart_one
          and beyond = unasked]
        post_cart_accumulates [where pid = 9 and n = 1 and q = Absent and d = cart_one
          and beyond = unasked]
  by (simp add: cart_one_def safe_def)

text \<open>
  C10, as stated, fails: the route looks the product id up in the cart only, so when the
  cart already holds a row with an id that matches no product, the request inserts nothing
  and adds to that row instead. Here product 999 is no product, the cart holds one row for
  it, and a second request leaves one row, now with quantity 2.
\<close>

theorem post_cart_unknown_product_counterexample:
  "999 \<notin> p_id ` set (products shop)
   \<and> post_api_cart unasked None None \<lparr>b_product_id = Val 999, b_quantity = Absent\<rparr> shop
     = (\<lparr>status = 200, payload = Message ''Cart updated successfully''\<rparr>,
        shop\<lparr>cart_items := [\<lparr>ci_id = 1, ci_product_id = Some 999, ci_quantity = Some 2\<rparr>]\<rparr>)
   \<and> length (cart_items (snd (post_api_cart unasked None None
         \<lparr>b_product_id = Val 999, b_quantity = Absent\<rparr> shop))) = length (cart_items shop)"
  by (simp add: post_api_cart_def shop_def smartphone_def laptop_def json_def safe_def)

text \<open>
  C10, amended. The route never looks at the products: for a product id that matches no
  product the answer is always a success message, never a not-found error. The request
  names the product \<open>pid\<close> and asks for \<open>n\<close> (1 when the quantity is missing), both
  safe integers. When no cart row holds that product id, one row with quantity \<open>n\<close> is
  inserted. When some cart row holds it, nothing is inserted: the products, the sequence
  and the number, ids and products of the rows stay, every row of that product whose
  quantity \<open>k\<close> is safe with a safe sum gets \<open>k + n\<close>, the other rows are untouched,
  and the answer is \<open>Cart updated successfully\<close>.
\<close>

theorem post_cart_no_product_check:
  fixes pid n :: int and q :: "int field" and d :: db and beyond :: real_sum
  defines "req \<equiv> \<lparr>b_product_id = Val pid, b_quantity = q\<rparr>"
  assumes unknown: "pid \<notin> p_id ` set (products d)"
    and q: "q = Val n \<or> (q = Absent \<and> n = 1)" and bound: "safe pid" "safe n"
  shows
  "((\<forall>r \<in> set (cart_items d). ci_product_id r \<noteq> Some pid) \<longrightarrow>
      post_api_cart beyond None None req d
        = (\<lparr>status = 200, payload = Message ''Item added to cart successfully''\<rparr>,
           d\<lparr>cart_items := cart_items d @
                [\<lparr>ci_id = cart_seq d + 1, ci_product_id = Some pid, ci_quantity = Some n\<rparr>],
             cart_seq := cart_seq d + 1\<rparr>))
   \<and> ((\<exists>r \<in> set (cart_items d). ci_product_id r = Some pid) \<longrightarrow>
      fst (post_api_cart beyond None None req d)
        = \<lparr>status = 200, payload = Message ''Cart updated successfully''\<rparr>
      \<and> products (snd (post_api_cart beyond None None req d)) = products d
      \<and> cart_seq (snd (post_api_cart beyond None None req d)) = cart_seq d
      \<and> length (cart_items (snd (post_api_cart beyond None None req d))) = length (cart_items d)
      \<and> (\<forall>i < length (cart_items d).
            ci_id (cart_items (snd (post_api_cart beyond None None req d)) ! i)
              = ci_id (cart_items d ! i)
          \<and> ci_product_id (cart_items (snd (post_api_cart beyond None None req d)) ! i)
              = ci_product_id (cart_items d ! i)
          \<and> (\<forall>k. ci_product_id (cart_items d ! i) = Some pid
                  \<and> ci_quantity (cart_items d ! i) = Some k \<and> safe k \<and> safe (k + n)
                \<longrightarrow> ci_quantity (cart_items (snd (post_api_cart beyond None None req d)) ! i)
                      = Some (k + n))
          \<and> (ci_product_id (cart_items d ! i) \<noteq> Some pid
                \<longrightarrow> cart_items (snd (post_api_cart beyond None None req d)) ! i
                      = cart_items d ! i)))"
proof (intro conjI impI)
  assume fresh: "\<forall>r \<in> set (cart_items d). ci_product_id r \<noteq> Some pid"
  from post_api_cart_insert_row [OF q fresh, of beyond, folded req_def]
  show "post_api_cart beyond None None req d
        = (\<lparr>status = 200, payload = Message ''Item added to cart successfully''\<rparr>,
           d\<lparr>cart_items := cart_items d @
                [\<lparr>ci_id = cart_seq d + 1, ci_product_id = Some pid, ci_quantity = Some n\<rparr>],
             cart_seq := cart_seq d + 1\<rparr>)" .
next
  assume present: "\<exists>r \<in> set (cart_items d). ci_product_id r = Some pid"
  note rows = post_api_cart_update_rows [OF q bound(2) present, of beyond, folded req_def]
  from rows(1) show "fst (post_api_cart beyond None None req d)
        = \<lparr>status = 200, payload = Message ''Cart updated successfully''\<rparr>" .
  from rows(2) show "products (snd (post_api_cart beyond None None req d)) = products d" .
  from rows(3) show "cart_seq (snd (post_api_cart beyond None None req d)) = cart_seq d" .
  from rows(4) show "length (cart_items (snd (post_api_cart beyond None None req d)))
        = length (cart_items d)" .
  from rows(5) show "\<forall>i < length (cart_items d).
            ci_id (cart_items (snd (post_api_cart beyond None None req d)) ! i)
              = ci_id (cart_items d ! i)
          \<and> ci_product_id (cart_items (snd (post_api_cart beyond None None req d)) ! i)
              = ci_product_id (cart_items d ! i)
          \<and> (\<forall>k. ci_product_id (cart_items d ! i) = Some pid
                  \<and> ci_quantity (cart_items d ! i) = Some k \<and> safe k \<and> safe (k + n)
                \<longrightarrow> ci_quantity (cart_items (snd (post_api_cart beyond None None req d)) ! i)
                      = Some (k + n))
          \<and> (ci_product_id (cart_items d ! i) \<noteq> Some pid
                \<longrightarrow> cart_items (snd (post_api_cart beyond None None req d)) ! i
                      = cart_items d ! i)" .
qed

text \<open>
  In the shop, product 7 is no product and not in the cart: a request without a quantity
  inserts a row with quantity 1. Product 999 is no product and in the cart with quantity
  1: a request for 3 keeps the single row and stores 4.
\<close>

theorem post_cart_no_product_check_witness:
  "7 \<notin> p_id ` set (products shop)
   \<and> post_api_cart unasked None None \<lparr>b_product_id = Val 7, b_quantity = Absent\<rparr> shop
     = (\<lparr>status = 200, payload = Message ''Item added to cart successfully''\<rparr>,
        shop\<lparr>cart_items :=
               [\<lparr>ci_id = 1, ci_product_id = Some 999, ci_quantity = Some 1\<rparr>,
                \<lparr>ci_id = 2, ci_product_id = Some 7, ci_quantity = Some 1\<rparr>],
             cart_seq := 2\<rparr>)
   \<and> 999 \<notin> p_id ` set (products shop)
   \<and> fst (post_api_cart unasked None None \<lparr>b_product_id = Val 999, b_quantity = Val 3\<rparr> shop)
     = \<lparr>status = 200, payload = Message ''Cart updated successfully''\<rparr>
   \<and> length (cart_items (snd (post_api_cart unasked None None
         \<lparr>b_product_id = Val 999, b_quantity = Val 3\<rparr> shop))) = 1
   \<and> ci_quantity (cart_items (snd (post_api_cart unasked None None
         \<lparr>b_product_id = Val 999, b_quantity = Val 3\<rparr> shop)) ! 0) = Some 4"
proof -
  have a: "7 \<notin> p_id ` set (products shop)" and b: "999 \<notin> p_id ` set (products shop)"
    by (simp_all add: shop_def smartphone_def laptop_def)
  have s: "safe 7" "safe 999" "safe 1" "safe 3"
    by (simp_all add: safe_def)
  have q1: "(Absent :: int field) = Val 1 \<or> ((Absent :: int field) = Absent \<and> (1 :: int) = 1)"
    and q3: "(Val 3 :: int field) = Val 3 \<or> ((Val 3 :: int field) = Absent \<and> (3 :: int) = 1)"
    by simp_all
  show ?thesis
    using post_cart_no_product_check [OF a q1 s(1) s(3), of unasked]
          post_cart_no_product_check [OF b q3 s(2) s(4), of unasked] a b
    by (simp add: shop_def safe_def)
qed

section \<open>Updating and deleting cart items\<close>

lemma map_unchanged:
  "(\<And>r. r \<in> set xs \<Longrightarrow> f r = r) \<Longrightarrow> map f xs = xs"
  by (induction xs) auto

text \<open>
  C8. Whatever the path segment \<open>ident\<close> is, and whether or not it converts to the id of
  a stored cart item, the update route answers 200 with the message
  \<open>Cart item updated successfully\<close> once the driver ran the statement; it never answers
  that the item was not found. When \<open>ident\<close> matches no stored cart item the store is
  left as it was.
\<close>

theorem put_cart_unknown_id_succeeds:
  "fst (put_api_cart_id aff None ident quantity d)
     = \<lparr>status = 200, payload = Message ''Cart item updated successfully''\<rparr>
   \<and> ((\<forall>r \<in> set (cart_items d). aff ident \<noteq> Some (ci_id r))
        \<longrightarrow> snd (put_api_cart_id aff None ident quantity d) = d)"
proof -
  have "map (\<lambda>r. if aff ident = Some (ci_id r)
                  then r\<lparr>ci_quantity := bind_param quantity\<rparr> else r) (cart_items d)
          = cart_items d"
    if "\<forall>r \<in> set (cart_items d). aff ident \<noteq> Some (ci_id r)"
    using that by (intro map_unchanged) simp
  then show ?thesis
    by (simp add: put_api_cart_id_def json_def)
qed

theorem put_cart_unknown_id_witness:
  "fst (put_api_cart_id decimal None ''7'' (Val 5) cart_one)
     = \<lparr>status = 200, payload = Message ''Cart item updated successfully''\<rparr>
   \<and> snd (put_api_cart_id decimal None ''7'' (Val 5) cart_one) = cart_one
   \<and> decimal ''7'' = Some 7"
proof -
  have h: "\<forall>r \<in> set (cart_items cart_one). decimal ''7'' \<noteq> Some (ci_id r)"
    by (simp add: cart_one_def digit_val_def)
  show ?thesis
    using put_cart_unknown_id_succeeds [of decimal "''7''" "Val 5" cart_one] h
    by (simp add: digit_val_def)
qed

text \<open>
  C9. Deleting is idempotent. For every path segment, matching or not, the delete route
  answers 200 with the same message \<open>Item removed from cart successfully\<close>, and
  deleting the same id a second time leaves the store exactly as the first deletion
  left it.
\<close>

theorem delete_cart_idempotent:
  "fst (delete_api_cart_id aff None ident d)
     = \<lparr>status = 200, payload = Message ''Item removed from cart successfully''\<rparr>
   \<and> fst (delete_api_cart_id aff None ident (snd (delete_api_cart_id aff None ident d)))
     = fst (delete_api_cart_id aff None ident d)
   \<and> snd (delete_api_cart_id aff None ident (snd (delete_api_cart_id aff None ident d)))
     = snd (delete_api_cart_id aff None ident d)"
  by (simp add: delete_api_cart_id_def json_def)

section \<open>Looking a product up\<close>

lemma find_by_key:
  "distinct (map f xs) \<Longrightarrow> p \<in> set xs \<Longrightarrow> k = Some (f p) \<Longrightarrow>
     find (\<lambda>x. k = Some (f x)) xs = Some p"
  by (induction xs) (auto simp: image_iff)

text \<open>
  C4. The lookup of one product. When the path segment converts to the id of no product,
  the route answers 404 with the error message \<open>Product not found\<close>; when it
  converts to the id of a product \<open>p\<close> of the store, the route answers 200 with
  \<open>p\<close> itself. \<open>id\<close> is the primary key of \<open>products\<close>, so ids are distinct.
\<close>

theorem get_product_or_not_found:
  "((\<forall>p \<in> set (products d). aff ident \<noteq> Some (p_id p)) \<longrightarrow>
      get_api_products_id aff None ident d
        = \<lparr>status = 404, payload = Error ''Product not found''\<rparr>)
   \<and> (distinct (map p_id (products d)) \<and> p \<in> set (products d) \<and> aff ident = Some (p_id p) \<longrightarrow>
      get_api_products_id aff None ident d = \<lparr>status = 200, payload = Row p\<rparr>)"
proof (intro conjI impI)
  assume "\<forall>p \<in> set (products d). aff ident \<noteq> Some (p_id p)"
  then have "find (\<lambda>p. aff ident = Some (p_id p)) (products d) = None"
    by (simp add: find_eq_None)
  then show "get_api_products_id aff None ident d
        = \<lparr>status = 404, payload = Error ''Product not found''\<rparr>"
    by (simp add: get_api_products_id_def status_json_def)
next
  assume "distinct (map p_id (products d)) \<and> p \<in> set (products d) \<and> aff ident = Some (p_id p)"
  then have "find (\<lambda>x. aff ident = Some (p_id x)) (products d) = Some p"
    by (intro find_by_key) simp_all
  then show "get_api_products_id aff None ident d = \<lparr>status = 200, payload = Row p\<rparr>"
    by (simp add: get_api_products_id_def json_def)
qed

theorem get_product_or_not_found_witness:
  "get_api_products_id decimal None ''99'' shop
     = \<lparr>status = 404, payload = Error ''Product not found''\<rparr>
   \<and> get_api_products_id decimal None ''abc'' shop
     = \<lparr>status = 404, payload = Error ''Product not found''\<rparr>
   \<and> get_api_products_id decimal None ''2'' shop = \<lparr>status = 200, payload = Row laptop\<rparr>"
  using get_product_or_not_found [of shop decimal "''99''" laptop]
        get_product_or_not_found [of shop decimal "''abc''" laptop]
        get_product_or_not_found [of shop decimal "''2''" laptop]
  by (simp add: shop_def smartphone_def laptop_def digit_val_def)

section \<open>Updating a quantity below one\<close>

text \<open>
  C3. For every update request of the \<open>cart_management\<close> tool with a quantity below
  1, whatever the cart item id, the store and the outcome the driver would have had, the
  operation fails with \<open>ValidationError\<close> and the store, with every cart item in it, is
  exactly as before: the tool rejects the request before anything is sent.
\<close>

theorem cart_update_below_one_rejected:
  assumes "cm_action req = Update" and "cm_quantity req = Some n" and "n < 1"
  shows "cart_management beyond aff segment err1 err2 req d = (Inl ValidationError, d)"
  using assms by (simp add: cart_management_def)

text \<open>From 1 on the update is sent, and the route stores the quantity in the matching rows.\<close>

lemma cart_update_from_one_stored:
  assumes "cm_action req = Update" and "cm_quantity req = Some n" and "1 \<le> n"
  shows "cart_management beyond aff segment None err2 req d =
     (Inr (Message ''Cart item updated successfully''),
      d\<lparr>cart_items :=
          map (\<lambda>r. if aff (segment (cm_id req)) = Some (ci_id r)
                    then r\<lparr>ci_quantity := Some n\<rparr> else r)
              (cart_items d)\<rparr>)"
  using assms
  by (simp add: cart_management_def put_api_cart_id_def classify_def json_def)

text \<open>
  On the cart with one row: quantities 0 and -3 are rejected and the row keeps its quantity
  2; quantity 6 is stored.
\<close>

theorem cart_update_below_one_rejected_witness:
  "cart_management unasked decimal segment_small None None
      \<lparr>cm_action = Update, cm_id = 1, cm_quantity = Some 0\<rparr> cart_one
     = (Inl ValidationError, cart_one)
   \<and> cart_management unasked decimal segment_small None None
      \<lparr>cm_action = Update, cm_id = 1, cm_quantity = Some (- 3)\<rparr> cart_one
     = (Inl ValidationError, cart_one)
   \<and> cart_management unasked decimal segment_small None None
      \<lparr>cm_action = Update, cm_id = 1, cm_quantity = Some 6\<rparr> cart_one
     = (Inr (Message ''Cart item updated successfully''),
        cart_one\<lparr>cart_items := [\<lparr>ci_id = 1, ci_product_id = Some 4, ci_quantity = Some 6\<rparr>]\<rparr>)"
proof -
  have six: "cart_management unasked decimal segment_small None None
      \<lparr>cm_action = Update, cm_id = 1, cm_quantity = Some 6\<rparr> cart_one
     = (Inr (Message ''Cart item updated successfully''),
        cart_one\<lparr>cart_items := [\<lparr>ci_id = 1, ci_product_id = Some 4, ci_quantity = Some 6\<rparr>]\<rparr>)"
    by (simp add: cart_management_def put_api_cart_id_def classify_def json_def cart_one_def
          segment_small_def digit_val_def)
  show ?thesis
    using
      cart_update_below_one_rejected [of "\<lparr>cm_action = Update, cm_id = 1, cm_quantity = Some 0\<rparr>" 0
        unasked decimal segment_small None None cart_one]
      cart_update_below_one_rejected [of "\<lparr>cm_action = Update, cm_id = 1, cm_quantity = Some (- 3)\<rparr>"
        "- 3" unasked decimal segment_small None None cart_one]
      six
    by simp
qed


text \<open>
  The validation lives in front of the backend. The update route itself has no lower
  bound: sent quantity 0, it answers with the success message and stores 0. The cart page
  guards too, silently: below 1, \<open>updateQuantity\<close> sends nothing, reports nothing and
  leaves its items as they were.
\<close>

lemma put_route_has_no_lower_bound:
  "put_api_cart_id decimal None ''1'' (Val 0) cart_one
     = (\<lparr>status = 200, payload = Message ''Cart item updated successfully''\<rparr>,
        cart_one\<lparr>cart_items := [\<lparr>ci_id = 1, ci_product_id = Some 4, ci_quantity = Some 0\<rparr>]\<rparr>)"
  by (simp add: put_api_cart_id_def cart_one_def json_def digit_val_def)

lemma page_drops_quantity_below_one:
  "newQuantity < 1 \<Longrightarrow> updateQuantity put_ok itemId newQuantity cartItems = (cartItems, [])"
  by (simp add: updateQuantity_def)

section \<open>The cart total\<close>

text \<open>Rounding to 2 decimal places gives a hundredth, and the nearest one.\<close>

lemma round2_hundredth: "\<exists>n :: int. round2 x = of_int n / 100"
  by (auto simp: round2_def)

lemma round2_near: "\<bar>round2 x - x\<bar> \<le> 1 / 200"
proof -
  define f :: real where "f = of_int \<lfloor>x * 100 + 1 / 2\<rfloor>"
  have a: "f \<le> x * 100 + 1 / 2"
    unfolding f_def by (rule of_int_floor_le)
  have b: "x * 100 + 1 / 2 < f + 1"
    unfolding f_def by linarith
  from a have "f / 100 - x \<le> 1 / 200" by linarith
  moreover from b have "- (1 / 200) \<le> f / 100 - x" by linarith
  ultimately have "\<bar>f / 100 - x\<bar> \<le> 1 / 200"
    by linarith
  then show ?thesis
    by (simp add: round2_def f_def)
qed

text \<open>
  C2. For every list of cart items, \<open>cart_summary\<close> succeeds with the items
  themselves and a total that is the sum over the items of price times quantity rounded
  to 2 decimal places: the total is a whole number of hundredths and differs from the sum
  by at most half a hundredth. For the empty cart the total is 0.
\<close>

theorem cart_summary_total:
  "\<exists>s. cart_summary (Inr rows) = Inr s
     \<and> items s = rows
     \<and> total s = round2 (\<Sum>r \<leftarrow> rows. v_price r * of_int (v_quantity r))
     \<and> (\<exists>n :: int. total s = of_int n / 100)
     \<and> \<bar>total s - (\<Sum>r \<leftarrow> rows. v_price r * of_int (v_quantity r))\<bar> \<le> 1 / 200
     \<and> (rows = [] \<longrightarrow> total s = 0)"
proof -
  let ?sum = "\<Sum>r \<leftarrow> rows. v_price r * of_int (v_quantity r)"
  have "cart_summary (Inr rows) = Inr \<lparr>items = rows, total = round2 ?sum\<rparr>"
    by (simp add: cart_summary_def)
  moreover have "\<exists>n :: int. round2 ?sum = of_int n / 100"
    by (rule round2_hundredth)
  moreover have "\<bar>round2 ?sum - ?sum\<bar> \<le> 1 / 200"
    by (rule round2_near)
  moreover have "rows = [] \<longrightarrow> round2 ?sum = 0"
    by (simp add: round2_def)
  ultimately show ?thesis
    by simp
qed

text \<open>
  Two books at 19.99 and a mug at 15.995 sum to 55.975, and the total is 55.98; the empty
  cart has the total 0.
\<close>

theorem cart_summary_total_witness:
  "cart_summary (Inr two_books_and_a_mug) = Inr \<lparr>items = two_books_and_a_mug, total = 55.98\<rparr>
   \<and> cart_summary (Inr []) = Inr \<lparr>items = [], total = 0\<rparr>"
proof -
  have a: "cart_summary (Inr two_books_and_a_mug)
      = Inr \<lparr>items = two_books_and_a_mug, total = 55.98\<rparr>"
    by (simp add: cart_summary_def two_books_and_a_mug_def round2_def)
  have e: "([] :: cart_row list) = []"
    by simp
  from cart_summary_total [of "[]"] e
  have "cart_summary (Inr []) = Inr \<lparr>items = [], total = 0\<rparr>"
    by auto
  with a show ?thesis
    by simp
qed

section \<open>Searching products\<close>

text \<open>Folding a byte to lower case adds 32 to the letters A to Z and keeps the rest.\<close>

lemma of_char_lower_char:
  "of_char (lower_char c) =
     (if 65 \<le> (of_char c :: nat) \<and> (of_char c :: nat) \<le> 90 then of_char c + 32 else (of_char c :: nat))"
  by (cases c) (auto simp: lower_char_def Let_def)

lemma product_search_listing:
  "product_search a (get_api_products None d) = Inr (filter (matches a) (products d))"
  by (simp add: product_search_def classify_def get_api_products_def json_def)

text \<open>
  C5. On the answer of \<open>GET /api/products\<close>, \<open>product_search\<close> always succeeds,
  with a list \<open>ps\<close> of products of the store; an empty list is such a result, not an
  error. Every product of \<open>ps\<close> passes each filter that is given: with a query, the
  folded query is a contiguous part of the folded name, description or category; with a
  category, the folded categories are equal; with price bounds, the price is at least the
  lower and at most the upper bound. When no product of the store matches, \<open>ps\<close> is
  empty.
\<close>

theorem product_search_sound:
  "\<exists>ps. product_search a (get_api_products None d) = Inr ps
     \<and> set ps \<subseteq> set (products d)
     \<and> (\<forall>p \<in> set ps.
           (\<forall>q. query a = Some q \<longrightarrow>
                  (\<exists>u v. lower (p_name p) = u @ lower q @ v)
                \<or> (\<exists>u v. lower (p_description p) = u @ lower q @ v)
                \<or> (\<exists>u v. lower (p_category p) = u @ lower q @ v))
         \<and> (\<forall>c. category a = Some c \<longrightarrow> lower (p_category p) = lower c)
         \<and> (\<forall>lo. min_price a = Some lo \<longrightarrow> lo \<le> p_price p)
         \<and> (\<forall>hi. max_price a = Some hi \<longrightarrow> p_price p \<le> hi))
     \<and> ((\<forall>p \<in> set (products d). \<not> matches a p) \<longrightarrow> ps = [])"
proof (intro exI conjI)
  show "product_search a (get_api_products None d) = Inr (filter (matches a) (products d))"
    by (rule product_search_listing)
  show "set (filter (matches a) (products d)) \<subseteq> set (products d)"
    by auto
  show "\<forall>p \<in> set (filter (matches a) (products d)).
           (\<forall>q. query a = Some q \<longrightarrow>
                  (\<exists>u v. lower (p_name p) = u @ lower q @ v)
                \<or> (\<exists>u v. lower (p_description p) = u @ lower q @ v)
                \<or> (\<exists>u v. lower (p_category p) = u @ lower q @ v))
         \<and> (\<forall>c. category a = Some c \<longrightarrow> lower (p_category p) = lower c)
         \<and> (\<forall>lo. min_price a = Some lo \<longrightarrow> lo \<le> p_price p)
         \<and> (\<forall>hi. max_price a = Some hi \<longrightarrow> p_price p \<le> hi)"
    by (auto simp: matches_def sublist_def)
  show "(\<forall>p \<in> set (products d). \<not> matches a p) \<longrightarrow> filter (matches a) (products d) = []"
    by (simp add: filter_empty_conv)
qed

text \<open>
  The scenario of the spec: electronics up to 700 finds the smartphone and not the laptop;
  a query in capitals with an inclusive lower bound finds the laptop; a query that matches
  nothing gives the empty list.
\<close>

theorem product_search_sound_witness:
  "product_search
      \<lparr>query = None, category = Some ''electronics'', min_price = None, max_price = Some 700\<rparr>
      (get_api_products None shop) = Inr [smartphone]
   \<and> product_search
      \<lparr>query = Some ''GAMING'', category = None, min_price = Some 1299.99, max_price = None\<rparr>
      (get_api_products None shop) = Inr [laptop]
   \<and> product_search
      \<lparr>query = Some ''bicycle'', category = None, min_price = None, max_price = None\<rparr>
      (get_api_products None shop) = Inr []"
  using
    product_search_sound [of
      "\<lparr>query = None, category = Some ''electronics'', min_price = None, max_price = Some 700\<rparr>" shop]
    product_search_sound [of
      "\<lparr>query = Some ''GAMING'', category = None, min_price = Some 1299.99, max_price = None\<rparr>" shop]
    product_search_sound [of
      "\<lparr>query = Some ''bicycle'', category = None, min_price = None, max_price = None\<rparr>" shop]
  by (simp add: product_search_listing matches_def shop_def smartphone_def laptop_def
        lower_def lower_char_def sublist_Cons_right)


section \<open>The orchestrator's loop is bounded\<close>

lemma step_iteration_le:
  "iteration m \<le> max_iterations cfg \<Longrightarrow> iteration (step cfg model tools m) \<le> max_iterations cfg"
  by (auto simp: step_def split: phase.splits option.splits model_reply.splits list.splits prod.splits)

lemma run_finished: "finished (phase (run cfg model tools m))"
proof (induction cfg model tools m rule: run.induct)
  case (1 cfg model tools m)
  then show ?case
    by (cases "finished (phase m)") (simp_all add: run.simps [of cfg model tools m])
qed

lemma run_iteration_le:
  "iteration m \<le> max_iterations cfg \<Longrightarrow> iteration (run cfg model tools m) \<le> max_iterations cfg"
proof (induction cfg model tools m rule: run.induct)
  case (1 cfg model tools m)
  show ?case
  proof (cases "finished (phase m)")
    case True
    with "1.prems" show ?thesis by (simp add: run.simps [of cfg model tools m])
  next
    case False
    with "1.IH" [OF False step_iteration_le [OF "1.prems"]] show ?thesis
      by (simp add: run.simps [of cfg model tools m])
  qed
qed


lemma step_answer:
  assumes "\<not> finished (phase m)" and "phase (step cfg model tools m) = DONE text"
  shows "text = fallback_text cfg
       \<or> (\<exists>i < max_iterations cfg. \<exists>ctx. model i ctx = Some (FINAL text))"
proof (cases "phase m")
  case AWAITING_MODEL
  show ?thesis
  proof (cases "max_iterations cfg \<le> iteration m")
    case True
    with AWAITING_MODEL assms(2) show ?thesis by (simp add: step_def)
  next
    case False
    then have i: "iteration m < max_iterations cfg" by simp
    show ?thesis
    proof (cases "model (iteration m) (recent (history_window cfg) (transcript m))")
      case None
      with AWAITING_MODEL False assms(2) show ?thesis by (simp add: step_def)
    next
      case (Some reply)
      show ?thesis
      proof (cases reply)
        case (FINAL a)
        with Some AWAITING_MODEL False assms(2) have "a = text" by (simp add: step_def)
        with Some FINAL i show ?thesis by blast
      next
        case (TOOL_REQUEST calls)
        with Some AWAITING_MODEL False assms(2) show ?thesis by (simp add: step_def)
      qed
    qed
  qed
next
  case (EXECUTING_TOOL calls)
  with assms(2) show ?thesis
    by (cases calls) (auto simp: step_def split: prod.splits)
next
  case (DONE a)
  with assms(1) show ?thesis by simp
qed

lemma run_answer:
  assumes "\<not> finished (phase m)" and "phase (run cfg model tools m) = DONE text"
  shows "text = fallback_text cfg
       \<or> (\<exists>i < max_iterations cfg. \<exists>ctx. model i ctx = Some (FINAL text))"
  using assms
proof (induction cfg model tools m rule: run.induct)
  case (1 cfg model tools m)
  from "1.prems" have r: "phase (run cfg model tools (step cfg model tools m)) = DONE text"
    by (simp add: run.simps [of cfg model tools m])
  show ?case
  proof (cases "finished (phase (step cfg model tools m))")
    case True
    then have "run cfg model tools (step cfg model tools m) = step cfg model tools m"
      by (simp add: run.simps [of cfg model tools "step cfg model tools m"])
    with r have "phase (step cfg model tools m) = DONE text" by simp
    from step_answer [OF "1.prems"(1) this] show ?thesis .
  next
    case False
    from "1.IH" [OF "1.prems"(1) False r] show ?thesis .
  qed
qed

lemma step_exhausts:
  assumes tools_only: "\<forall>i < max_iterations cfg. \<forall>ctx. \<exists>calls. model i ctx = Some (TOOL_REQUEST calls)"
    and inv: "iteration m \<le> max_iterations cfg"
      "\<forall>text. phase m = DONE text \<longrightarrow> text = fallback_text cfg \<and> iteration m = max_iterations cfg"
  shows "iteration (step cfg model tools m) \<le> max_iterations cfg
       \<and> (\<forall>text. phase (step cfg model tools m) = DONE text
             \<longrightarrow> text = fallback_text cfg \<and> iteration (step cfg model tools m) = max_iterations cfg)"
proof (cases "phase m")
  case AWAITING_MODEL
  show ?thesis
  proof (cases "max_iterations cfg \<le> iteration m")
    case True
    with AWAITING_MODEL inv(1) show ?thesis by (simp add: step_def)
  next
    case False
    then have "iteration m < max_iterations cfg" by simp
    with tools_only obtain calls where
      "model (iteration m) (recent (history_window cfg) (transcript m)) = Some (TOOL_REQUEST calls)"
      by blast
    with AWAITING_MODEL False show ?thesis by (simp add: step_def)
  qed
next
  case (EXECUTING_TOOL calls)
  with inv(1) show ?thesis
    by (cases calls) (auto simp: step_def split: prod.splits)
next
  case (DONE a)
  with inv show ?thesis by (simp add: step_def)
qed

lemma run_exhausts:
  assumes "\<forall>i < max_iterations cfg. \<forall>ctx. \<exists>calls. model i ctx = Some (TOOL_REQUEST calls)"
    and "iteration m \<le> max_iterations cfg"
    and "\<forall>text. phase m = DONE text \<longrightarrow> text = fallback_text cfg \<and> iteration m = max_iterations cfg"
  shows "phase (run cfg model tools m) = DONE (fallback_text cfg)
       \<and> iteration (run cfg model tools m) = max_iterations cfg"
  using assms
proof (induction cfg model tools m rule: run.induct)
  case (1 cfg model tools m)
  show ?case
  proof (cases "finished (phase m)")
    case True
    then obtain t where "phase m = DONE t" by (cases "phase m") simp_all
    with "1.prems"(3) True show ?thesis by (simp add: run.simps [of cfg model tools m])
  next
    case False
    from step_exhausts [OF "1.prems"]
    have "iteration (step cfg model tools m) \<le> max_iterations cfg"
      and "\<forall>text. phase (step cfg model tools m) = DONE text
             \<longrightarrow> text = fallback_text cfg \<and> iteration (step cfg model tools m) = max_iterations cfg"
      by simp_all
    from "1.IH" [OF False "1.prems"(1) this] False show ?thesis
      by (simp add: run.simps [of cfg model tools m])
  qed
qed

lemma step_same_model:
  assumes "\<forall>i < max_iterations cfg. model' i = model i"
  shows "step cfg model' tools m = step cfg model tools m"
proof (cases "phase m")
  case AWAITING_MODEL
  show ?thesis
  proof (cases "max_iterations cfg \<le> iteration m")
    case True
    with AWAITING_MODEL show ?thesis by (simp add: step_def)
  next
    case False
    with assms have "model' (iteration m) = model (iteration m)" by simp
    with AWAITING_MODEL show ?thesis by (simp add: step_def)
  qed
qed (simp_all add: step_def)

lemma run_same_model:
  assumes "\<forall>i < max_iterations cfg. model' i = model i"
  shows "run cfg model' tools m = run cfg model tools m"
  using assms
proof (induction cfg model tools m rule: run.induct)
  case (1 cfg model tools m)
  show ?case
  proof (cases "finished (phase m)")
    case True
    then show ?thesis
      by (simp add: run.simps [of cfg model tools m] run.simps [of cfg model' tools m])
  next
    case False
    have "step cfg model' tools m = step cfg model tools m"
      by (rule step_same_model [OF "1.prems"])
    with "1.IH" [OF False "1.prems"] False show ?thesis
      by (simp add: run.simps [of cfg model tools m] run.simps [of cfg model' tools m])
  qed
qed

text \<open>
  C6. For every configuration, model, registry, session and message, the loop of
  \<open>process_message\<close> ends in the state \<open>DONE\<close> (and \<open>run\<close> is a total function,
  so it always ends). The model is invoked at most \<open>max_iterations\<close> times. The answer
  is the fallback text or the final answer of one of the first \<open>max_iterations\<close>
  invocations. When every one of these invocations asks for tools, the answer is the
  fallback text after exactly \<open>max_iterations\<close> invocations. Replies beyond the first
  \<open>max_iterations\<close> are never read: a model that differs only there gives the same
  reply. The reply is an ordinary value in every case; its type has no error.
\<close>

theorem orchestrator_loop_bounded:
  fixes cfg :: config and model model' :: model and tools :: "'w registry"
    and session :: "turn list" and message :: string and w :: 'w
  defines "r \<equiv> process_message cfg model tools session message w"
  shows
  "finished (phase (run cfg model tools (start session message w)))
   \<and> model_calls r \<le> max_iterations cfg
   \<and> (answer r = fallback_text cfg
        \<or> (\<exists>i < max_iterations cfg. \<exists>ctx. model i ctx = Some (FINAL (answer r))))
   \<and> ((\<forall>i < max_iterations cfg. \<forall>ctx. \<exists>calls. model i ctx = Some (TOOL_REQUEST calls))
        \<longrightarrow> answer r = fallback_text cfg \<and> model_calls r = max_iterations cfg)
   \<and> ((\<forall>i < max_iterations cfg. model' i = model i)
        \<longrightarrow> process_message cfg model' tools session message w = r)"
proof -
  let ?init = "start session message w :: 'w orchestrator"
  let ?m = "run cfg model tools ?init"
  have r: "r = \<lparr>answer = (case phase ?m of DONE text \<Rightarrow> text | _ \<Rightarrow> fallback_text cfg),
                 model_calls = iteration ?m, history = transcript ?m, backend = world ?m\<rparr>"
    by (simp add: r_def process_message_def start_def Let_def)
  have fin: "finished (phase ?m)"
    by (rule run_finished)
  then obtain t where t: "phase ?m = DONE t"
    by (cases "phase ?m") simp_all
  have m0: "\<not> finished (phase ?init)" "iteration ?init \<le> max_iterations cfg"
    by (simp_all add: start_def)
  have calls: "model_calls r \<le> max_iterations cfg"
    using run_iteration_le [OF m0(2)] by (simp add: r)
  have ans: "answer r = fallback_text cfg
        \<or> (\<exists>i < max_iterations cfg. \<exists>ctx. model i ctx = Some (FINAL (answer r)))"
    using run_answer [OF m0(1) t] by (simp add: r t)
  have exh: "answer r = fallback_text cfg \<and> model_calls r = max_iterations cfg"
    if "\<forall>i < max_iterations cfg. \<forall>ctx. \<exists>calls. model i ctx = Some (TOOL_REQUEST calls)"
    using run_exhausts [OF that m0(2)] by (simp add: r start_def)
  have same: "process_message cfg model' tools session message w = r"
    if "\<forall>i < max_iterations cfg. model' i = model i"
    using run_same_model [OF that, of tools ?init]
    by (simp add: r process_message_def start_def Let_def)
  from fin calls ans exh same show ?thesis by blast
qed


text \<open>
  With two iterations: a model that always asks for a tool is invoked twice and the reply
  is the fallback text; a model that asks for an unknown and a known tool and then answers
  is invoked twice, both tool results are in the transcript, and the reply is its answer.
\<close>

theorem orchestrator_loop_bounded_witness:
  "answer (process_message two_rounds stubborn one_tool [] ''what is in my cart?'' 0)
     = fallback_text two_rounds
   \<and> model_calls (process_message two_rounds stubborn one_tool [] ''what is in my cart?'' 0) = 2
   \<and> process_message two_rounds second_try one_tool [] ''what is in my cart?'' 0
     = \<lparr>answer = ''Your cart is empty.'', model_calls = 2,
        history = [Turn User (Text ''what is in my cart?''),
                   Turn Tool (Tool_result ''teleport'' (Inl ''unknown tool'')),
                   Turn Tool (Tool_result ''cart_summary'' (Inr ''0 items'')),
                   Turn Assistant (Text ''Your cart is empty.'')],
        backend = 1\<rparr>"
proof -
  have a: "\<forall>i < max_iterations two_rounds. \<forall>ctx. \<exists>calls. stubborn i ctx = Some (TOOL_REQUEST calls)"
    by (simp add: stubborn_def)
  have b: "process_message two_rounds second_try one_tool [] ''what is in my cart?'' 0
     = \<lparr>answer = ''Your cart is empty.'', model_calls = 2,
        history = [Turn User (Text ''what is in my cart?''),
                   Turn Tool (Tool_result ''teleport'' (Inl ''unknown tool'')),
                   Turn Tool (Tool_result ''cart_summary'' (Inr ''0 items'')),
                   Turn Assistant (Text ''Your cart is empty.'')],
        backend = 1\<rparr>"
    by (simp add: process_message_def start_def two_rounds_def second_try_def one_tool_def
          run.simps step_def invoke_def recent_def)
  show ?thesis
    using orchestrator_loop_bounded [where cfg = two_rounds and model = stubborn
        and model' = stubborn and tools = one_tool and session = "[]"
        and message = "''what is in my cart?''" and w = 0] a b
    by (simp add: two_rounds_def)
qed


text \<open>
  A final answer to the first invocation is the reply, after that one invocation, and is
  appended to the transcript as the assistant's turn.
\<close>

lemma first_reply_final:
  assumes "0 < max_iterations cfg"
    and "model 0 (recent (history_window cfg) (session @ [Turn User (Text message)])) = Some (FINAL a)"
  shows "process_message cfg model tools session message w =
     \<lparr>answer = a, model_calls = 1,
      history = session @ [Turn User (Text message), Turn Assistant (Text a)],
      backend = w\<rparr>"
proof -
  let ?init = "start session message w"
  have s1: "step cfg model tools ?init =
      \<lparr>phase = DONE a, iteration = 1,
       transcript = session @ [Turn User (Text message), Turn Assistant (Text a)], world = w\<rparr>"
    using assms by (simp add: step_def start_def)
  have "run cfg model tools ?init = run cfg model tools (step cfg model tools ?init)"
    by (subst run.simps) (simp add: start_def)
  also have "\<dots> = step cfg model tools ?init"
    by (subst run.simps) (simp add: s1)
  finally show ?thesis
    by (simp add: process_message_def s1)
qed


section \<open>The circuit breaker\<close>

lemma retry_all_transient:
  "\<forall>j. k \<le> j \<and> j < k + n \<longrightarrow> transient (net j) \<Longrightarrow> retry n k net = (None, k + n)"
proof (induction n arbitrary: k)
  case 0
  then show ?case by simp
next
  case (Suc n)
  from Suc.prems have "transient (net k)" by simp
  moreover from Suc.prems have "\<forall>j. k + 1 \<le> j \<and> j < (k + 1) + n \<longrightarrow> transient (net j)" by simp
  from Suc.IH [OF this] have "retry n (k + 1) net = (None, k + 1 + n)" .
  ultimately show ?case
    by (cases "net k") simp_all
qed

lemma retry_some_answer:
  "\<exists>j. k \<le> j \<and> j < k + n \<and> \<not> transient (net j) \<Longrightarrow>
     \<exists>res j. retry n k net = (Some res, j + 1) \<and> k \<le> j \<and> j < k + n
        \<and> net j = Replied res \<and> status res < 500 \<and> (\<forall>i. k \<le> i \<and> i < j \<longrightarrow> transient (net i))"
proof (induction n arbitrary: k)
  case 0
  then show ?case by fastforce
next
  case (Suc n)
  show ?case
  proof (cases "transient (net k)")
    case True
    from Suc.prems obtain j0 where j0: "k \<le> j0" "j0 < k + Suc n" "\<not> transient (net j0)"
      by blast
    with True have "j0 \<noteq> k" by auto
    with j0 have "k + 1 \<le> j0 \<and> j0 < (k + 1) + n \<and> \<not> transient (net j0)" by simp
    then have "\<exists>j. k + 1 \<le> j \<and> j < (k + 1) + n \<and> \<not> transient (net j)" ..
    from Suc.IH [OF this] obtain res j where
      j: "retry n (k + 1) net = (Some res, j + 1)" "k + 1 \<le> j" "j < k + 1 + n"
         "net j = Replied res" "status res < 500" "\<forall>i. k + 1 \<le> i \<and> i < j \<longrightarrow> transient (net i)"
      by blast
    have "\<forall>i. k \<le> i \<and> i < j \<longrightarrow> transient (net i)"
    proof (intro allI impI)
      fix i assume "k \<le> i \<and> i < j"
      then show "transient (net i)"
        using True j(6) by (cases "i = k") auto
    qed
    moreover from True j(1) have "retry (Suc n) k net = (Some res, j + 1)"
      by (cases "net k") simp_all
    ultimately show ?thesis
      using j by (intro exI [of _ res] exI [of _ j]) simp
  next
    case False
    then obtain res where "net k = Replied res" "status res < 500"
      by (cases "net k") simp_all
    then show ?thesis
      by (intro exI [of _ res] exI [of _ k]) auto
  qed
qed


lemma through_exhausted:
  assumes "\<forall>k < max_attempts pol. transient (net k)"
  shows "through pol now net b =
     ((Inl BackendUnavailable, max_attempts pol),
      \<lparr>failures = failures b + 1,
       circuit = (if circuit b \<noteq> Closed \<or> failure_threshold pol \<le> failures b + 1
                  then Open now else Closed)\<rparr>)"
proof -
  from assms have "\<forall>j. 0 \<le> j \<and> j < 0 + max_attempts pol \<longrightarrow> transient (net j)" by simp
  from retry_all_transient [OF this] show ?thesis
    by (simp add: through_def)
qed

lemma through_answered:
  assumes "\<exists>k < max_attempts pol. \<not> transient (net k)"
  shows "snd (through pol now net b) = \<lparr>failures = 0, circuit = Closed\<rparr>
       \<and> 0 < snd (fst (through pol now net b))
       \<and> snd (fst (through pol now net b)) \<le> max_attempts pol"
proof -
  from assms have "\<exists>j. 0 \<le> j \<and> j < 0 + max_attempts pol \<and> \<not> transient (net j)" by simp
  from retry_some_answer [OF this] obtain res j where
    "retry (max_attempts pol) 0 net = (Some res, j + 1)" "j < 0 + max_attempts pol"
    by blast
  then show ?thesis
    by (simp add: through_def)
qed

lemma through_attempts:
  assumes "0 < max_attempts pol"
  shows "0 < snd (fst (through pol now net b)) \<and> snd (fst (through pol now net b)) \<le> max_attempts pol"
proof (cases "\<exists>k < max_attempts pol. \<not> transient (net k)")
  case True
  from through_answered [OF this] show ?thesis by simp
next
  case False
  then have "\<forall>k < max_attempts pol. transient (net k)" by simp
  from through_exhausted [OF this] assms show ?thesis by simp
qed

lemma calls_stay_closed:
  assumes "\<forall>c \<in> set cs. \<forall>k < max_attempts pol. transient (snd c k)"
    and "f + length cs < failure_threshold pol"
  shows "snd (calls pol cs \<lparr>failures = f, circuit = Closed\<rparr>)
           = \<lparr>failures = f + length cs, circuit = Closed\<rparr>"
  using assms
proof (induction cs arbitrary: f)
  case Nil
  then show ?case by simp
next
  case (Cons c cs)
  obtain now net where c: "c = (now, net)" by (cases c)
  from Cons.prems(1) c have "\<forall>k < max_attempts pol. transient (net k)" by simp
  from through_exhausted [OF this, of now "\<lparr>failures = f, circuit = Closed\<rparr>"] Cons.prems(2)
  have one: "call pol now net \<lparr>failures = f, circuit = Closed\<rparr>
      = ((Inl BackendUnavailable, max_attempts pol), \<lparr>failures = f + 1, circuit = Closed\<rparr>)"
    by (simp add: call_def)
  from Cons.prems have "\<forall>c \<in> set cs. \<forall>k < max_attempts pol. transient (snd c k)"
    and "(f + 1) + length cs < failure_threshold pol" by simp_all
  from Cons.IH [OF this] show ?case
    by (auto simp: c one split: prod.splits)
qed

lemma calls_append:
  "calls pol (cs @ ds) b =
     (case calls pol cs b of (rs, b') \<Rightarrow> (case calls pol ds b' of (ss, b'') \<Rightarrow> (rs @ ss, b'')))"
  by (induction cs arbitrary: b) (auto split: prod.splits)

lemma calls_open:
  assumes "cs \<noteq> []"
    and "\<forall>c \<in> set cs. \<forall>k < max_attempts pol. transient (snd c k)"
    and "length cs = failure_threshold pol"
  shows "snd (calls pol cs \<lparr>failures = 0, circuit = Closed\<rparr>)
           = \<lparr>failures = failure_threshold pol, circuit = Open (fst (last cs))\<rparr>"
proof -
  from assms(1) obtain ds c where cs: "cs = ds @ [c]"
    by (metis rev_exhaust)
  obtain now net where c: "c = (now, net)" by (cases c)
  from assms(2) cs have ds: "\<forall>c \<in> set ds. \<forall>k < max_attempts pol. transient (snd c k)" by simp
  from assms(3) cs have len: "0 + length ds < failure_threshold pol" by simp
  from calls_stay_closed [OF ds len]
  have before: "snd (calls pol ds \<lparr>failures = 0, circuit = Closed\<rparr>)
      = \<lparr>failures = length ds, circuit = Closed\<rparr>" by simp
  from assms(2) cs c have "\<forall>k < max_attempts pol. transient (net k)" by simp
  from through_exhausted [OF this, of now "\<lparr>failures = length ds, circuit = Closed\<rparr>"] assms(3) cs
  have last: "call pol now net \<lparr>failures = length ds, circuit = Closed\<rparr>
      = ((Inl BackendUnavailable, max_attempts pol),
         \<lparr>failures = failure_threshold pol, circuit = Open now\<rparr>)"
    by (simp add: call_def)
  obtain rs b' where r: "calls pol ds \<lparr>failures = 0, circuit = Closed\<rparr> = (rs, b')"
    by (cases "calls pol ds \<lparr>failures = 0, circuit = Closed\<rparr>")
  with before have "b' = \<lparr>failures = length ds, circuit = Closed\<rparr>" by simp
  with r last show ?thesis
    by (simp add: cs c calls_append)
qed

lemma call_short_circuit:
  "now < since + cool_down pol \<Longrightarrow>
     call pol now net \<lparr>failures = f, circuit = Open since\<rparr>
       = ((Inl BackendUnavailable, 0), \<lparr>failures = f, circuit = Open since\<rparr>)"
  by (simp add: call_def)

text \<open>
  C7. Let the threshold \<open>N\<close> and the attempts per call be positive. After \<open>N\<close>
  consecutive calls that fail transiently on a closed breaker, the circuit is open since
  the instant of the last of them. A call that starts while the circuit is open and the
  window has not elapsed returns \<open>BackendUnavailable\<close> with no network attempt and
  leaves the breaker as it was. The first call after the window is let through as the
  probe: it makes at least one attempt; if the backend answers, the circuit is closed and
  the counter is 0; if the probe fails, the circuit is open since the probe's instant, and
  every call within the new window makes no attempt, so the probe was the only call
  attempted.
\<close>

theorem circuit_breaker:
  assumes n: "0 < failure_threshold pol" and a: "0 < max_attempts pol"
  shows
  "(length cs = failure_threshold pol
      \<and> (\<forall>c \<in> set cs. \<forall>k < max_attempts pol. transient (snd c k))
    \<longrightarrow> snd (calls pol cs \<lparr>failures = 0, circuit = Closed\<rparr>)
          = \<lparr>failures = failure_threshold pol, circuit = Open (fst (last cs))\<rparr>)
   \<and> (now < since + cool_down pol
    \<longrightarrow> call pol now net \<lparr>failures = f, circuit = Open since\<rparr>
          = ((Inl BackendUnavailable, 0), \<lparr>failures = f, circuit = Open since\<rparr>))
   \<and> (since + cool_down pol \<le> now
    \<longrightarrow> 0 < snd (fst (call pol now net \<lparr>failures = f, circuit = Open since\<rparr>))
      \<and> snd (fst (call pol now net \<lparr>failures = f, circuit = Open since\<rparr>)) \<le> max_attempts pol
      \<and> ((\<exists>k < max_attempts pol. \<not> transient (net k))
          \<longrightarrow> snd (call pol now net \<lparr>failures = f, circuit = Open since\<rparr>)
                = \<lparr>failures = 0, circuit = Closed\<rparr>)
      \<and> ((\<forall>k < max_attempts pol. transient (net k))
          \<longrightarrow> call pol now net \<lparr>failures = f, circuit = Open since\<rparr>
                = ((Inl BackendUnavailable, max_attempts pol),
                   \<lparr>failures = f + 1, circuit = Open now\<rparr>)
            \<and> (\<forall>later net'. now \<le> later \<and> later < now + cool_down pol
                  \<longrightarrow> snd (fst (call pol later net'
                        (snd (call pol now net \<lparr>failures = f, circuit = Open since\<rparr>)))) = 0)))"
proof (intro conjI impI)
  assume h: "length cs = failure_threshold pol
      \<and> (\<forall>c \<in> set cs. \<forall>k < max_attempts pol. transient (snd c k))"
  with n have "cs \<noteq> []" by auto
  from calls_open [OF this] h
  show "snd (calls pol cs \<lparr>failures = 0, circuit = Closed\<rparr>)
          = \<lparr>failures = failure_threshold pol, circuit = Open (fst (last cs))\<rparr>"
    by simp
next
  assume "now < since + cool_down pol"
  then show "call pol now net \<lparr>failures = f, circuit = Open since\<rparr>
          = ((Inl BackendUnavailable, 0), \<lparr>failures = f, circuit = Open since\<rparr>)"
    by (simp add: call_def)
next
  assume w: "since + cool_down pol \<le> now"
  then have probe: "call pol now net \<lparr>failures = f, circuit = Open since\<rparr>
      = through pol now net \<lparr>failures = f, circuit = Open since\<rparr>"
    by (simp add: call_def)
  from through_attempts [OF a, of now net "\<lparr>failures = f, circuit = Open since\<rparr>"]
  show "0 < snd (fst (call pol now net \<lparr>failures = f, circuit = Open since\<rparr>))"
    and "snd (fst (call pol now net \<lparr>failures = f, circuit = Open since\<rparr>)) \<le> max_attempts pol"
    by (simp_all add: probe)
  {
    assume "\<exists>k < max_attempts pol. \<not> transient (net k)"
    from through_answered [OF this, of now "\<lparr>failures = f, circuit = Open since\<rparr>"]
    show "snd (call pol now net \<lparr>failures = f, circuit = Open since\<rparr>)
                = \<lparr>failures = 0, circuit = Closed\<rparr>"
      by (simp add: probe)
  }
  {
    assume "\<forall>k < max_attempts pol. transient (net k)"
    from through_exhausted [OF this, of now "\<lparr>failures = f, circuit = Open since\<rparr>"]
    have res: "call pol now net \<lparr>failures = f, circuit = Open since\<rparr>
                = ((Inl BackendUnavailable, max_attempts pol),
                   \<lparr>failures = f + 1, circuit = Open now\<rparr>)"
      by (simp add: probe)
    then show "call pol now net \<lparr>failures = f, circuit = Open since\<rparr>
                = ((Inl BackendUnavailable, max_attempts pol),
                   \<lparr>failures = f + 1, circuit = Open now\<rparr>)" .
    from res have "snd (call pol now net \<lparr>failures = f, circuit = Open since\<rparr>)
        = \<lparr>failures = f + 1, circuit = Open now\<rparr>"
      by simp
    then show "\<forall>later net'. now \<le> later \<and> later < now + cool_down pol
                  \<longrightarrow> snd (fst (call pol later net'
                        (snd (call pol now net \<lparr>failures = f, circuit = Open since\<rparr>)))) = 0"
      by (simp add: call_short_circuit)
  }
qed


text \<open>
  With the defaults: five failed calls open the circuit at the fifth; a call one second
  later makes no attempt; after thirty seconds a probe that is answered closes the circuit,
  a probe that fails reopens it, and the next call is again answered without an attempt.
\<close>

theorem circuit_breaker_witness:
  "snd (calls defaults [(0, down), (10, down), (20, down), (30, down), (40, down)]
          \<lparr>failures = 0, circuit = Closed\<rparr>)
     = \<lparr>failures = 5, circuit = Open 40\<rparr>
   \<and> call defaults 1000 up \<lparr>failures = 5, circuit = Open 40\<rparr>
     = ((Inl BackendUnavailable, 0), \<lparr>failures = 5, circuit = Open 40\<rparr>)
   \<and> call defaults 30040 up \<lparr>failures = 5, circuit = Open 40\<rparr>
     = ((Inr (Rows []), 1), \<lparr>failures = 0, circuit = Closed\<rparr>)
   \<and> call defaults 30040 down \<lparr>failures = 5, circuit = Open 40\<rparr>
     = ((Inl BackendUnavailable, 3), \<lparr>failures = 6, circuit = Open 30040\<rparr>)
   \<and> snd (fst (call defaults 30050 up
        (snd (call defaults 30040 down \<lparr>failures = 5, circuit = Open 40\<rparr>)))) = 0"
proof -
  let ?cs = "[(0, down), (10, down), (20, down), (30, down), (40, down)] :: (nat \<times> network) list"
  let ?b = "\<lparr>failures = 5, circuit = Open 40\<rparr>"
  have n: "0 < failure_threshold defaults" and a: "0 < max_attempts defaults"
    by (simp_all add: defaults_def)
  note opened = circuit_breaker [OF n a, where cs = ?cs and now = 1000 and since = 40
      and net = up and f = 5]
  note probed = circuit_breaker [OF n a, where cs = ?cs and now = 30040 and since = 40
      and net = down and f = 5]
  have h1: "length ?cs = failure_threshold defaults
      \<and> (\<forall>c \<in> set ?cs. \<forall>k < max_attempts defaults. transient (snd c k))"
    by (simp add: defaults_def down_def)
  have h2: "(1000::nat) < 40 + cool_down defaults"
    by (simp add: defaults_def)
  have h3: "40 + cool_down defaults \<le> (30040::nat)"
    by (simp add: defaults_def)
  have h4: "\<forall>k < max_attempts defaults. transient (down k)"
    by (simp add: down_def)
  have h5: "(30040::nat) \<le> 30050 \<and> (30050::nat) < 30040 + cool_down defaults"
    by (simp add: defaults_def)
  from opened h1
  have "snd (calls defaults ?cs \<lparr>failures = 0, circuit = Closed\<rparr>)
      = \<lparr>failures = failure_threshold defaults, circuit = Open (fst (last ?cs))\<rparr>"
    by blast
  then have c1: "snd (calls defaults ?cs \<lparr>failures = 0, circuit = Closed\<rparr>)
      = \<lparr>failures = 5, circuit = Open 40\<rparr>"
    by (simp add: defaults_def del: calls.simps)
  from opened h2
  have c2: "call defaults 1000 up ?b = ((Inl BackendUnavailable, 0), ?b)"
    by blast
  have c3: "call defaults 30040 up ?b
     = ((Inr (Rows []), 1), \<lparr>failures = 0, circuit = Closed\<rparr>)"
    by (simp add: call_def through_def defaults_def up_def json_def classify_def
          numeral_3_eq_3)
  from probed h3 h4
  have "call defaults 30040 down ?b
      = ((Inl BackendUnavailable, max_attempts defaults), \<lparr>failures = 5 + 1, circuit = Open 30040\<rparr>)"
    by blast
  then have c4: "call defaults 30040 down ?b
      = ((Inl BackendUnavailable, 3), \<lparr>failures = 6, circuit = Open 30040\<rparr>)"
    by (simp add: defaults_def)
  from probed h3 h4 h5
  have c5: "snd (fst (call defaults 30050 up (snd (call defaults 30040 down ?b)))) = 0"
    by blast
  from c1 c2 c3 c4 c5 show ?thesis
    by blast
qed


end
